theory Spec2Isabelle
  imports Complex_Main "HOL-Library.AList"
begin

section \<open>Data model of \<^verbatim>\<open>polygon_utils.py\<close>\<close>

text \<open>
  Scalar Python values as they occur in request parameters and in the records of a page.
  JSON numbers without a fraction are \<open>PInt\<close>, the others \<open>PFloat\<close> (the decimal value
  of the literal; the normalizers only carry such values, they never compute with them).
\<close>

datatype pyval = PNone | PBool bool | PInt int | PFloat rat | PStr string | PDatetime rat

text \<open>
  A Python \<^verbatim>\<open>dict\<close> with string keys is an association list in insertion order with
  distinct keys; \<open>AList.update\<close> is item assignment (an existing key keeps its place, a new
  key goes to the end).
\<close>

type_synonym row = "(string \<times> pyval) list"

type_synonym payload = "(string \<times> pyval) list"

text \<open>
  The body of a 200 response, as section 6 of the specification types it: a JSON object
  with a \<^verbatim>\<open>results\<close> array and the optional \<^verbatim>\<open>request_id\<close> and \<^verbatim>\<open>next_url\<close>.
\<close>

record page =
  request_id :: "string option"
  next_url :: "string option"
  page_results :: "row list"

text \<open>
  One upstream response: its status, its JSON body (read on status 200 only) and the
  value \<^verbatim>\<open>time.time()\<close> returns while it is processed (seconds).
\<close>

record response =
  status :: int
  body :: page
  clock :: rat

record log_entry =
  log_request_id :: "string option"
  query_timestamp :: rat

text \<open>
  The observable effects of \<^verbatim>\<open>query_all\<close>, in order: \<^verbatim>\<open>asyncio.sleep(n)\<close> and the GET
  request, with the url, the parameters and the overload flag that line 55 logs.
\<close>

datatype event = Sleep int | Request string payload bool

datatype error = HTTPError int | IndexError | ZeroDivisionError | ValueError | KeyError | TypeError

text \<open>
  The fields of \<^verbatim>\<open>PolygonPaginator\<close>, and the trace of effects so far.
\<close>

record state =
  query_count :: int
  query_time_log :: "log_entry list"
  results :: "page list"
  clean_results :: "row list"
  events :: "event list"

text \<open>
  How a call of \<^verbatim>\<open>query_all\<close> ends: it returns, it raises, or it is still waiting for a
  response after the given sequence of responses is used up.
\<close>

datatype outcome = Returned state | Raised error state | Awaiting state

definition MAX_QUERY_PER_MINUTE :: int where
  "MAX_QUERY_PER_MINUTE = 4"

section \<open>Rate governor and pagination engine\<close>

definition timestamp_to_datetime :: "rat \<Rightarrow> rat" where
  \<comment> \<open>Modelled from the spec: \<^verbatim>\<open>utils.timestamp_to_datetime\<close> is not part of the sources. It
      turns a timestamp in seconds into the instant it denotes; an instant is represented
      by its offset in seconds, so that \<open>b - a\<close> is \<^verbatim>\<open>(b - a).total_seconds()\<close>, the
      "seconds between" of section 4.1.\<close>
  "timestamp_to_datetime t = t"

definition api_sleep_time :: "state \<Rightarrow> int" where
  "api_sleep_time s =
     (let sleep_time = 60 in
      if length (query_time_log s) > 2 then
        (let a = timestamp_to_datetime (query_timestamp (hd (query_time_log s)));
             b = timestamp_to_datetime (query_timestamp (last (query_time_log s)));
             diff = \<lceil>b - a\<rceil>
         in if diff < sleep_time then diff else sleep_time)
      else sleep_time)"

definition govern :: "state \<Rightarrow> bool \<Rightarrow> state" where
  \<comment> \<open>lines 50 to 53 of \<^verbatim>\<open>query_all\<close>\<close>
  "govern s overload =
     (if query_count s \<ge> MAX_QUERY_PER_MINUTE \<or> overload then
        s\<lparr>events := events s @ [Sleep (api_sleep_time s)],
          query_count := 0,
          query_time_log := []\<rparr>
      else s)"

definition send :: "state \<Rightarrow> string \<Rightarrow> payload \<Rightarrow> bool \<Rightarrow> state" where
  \<comment> \<open>lines 55 and 56: the request goes out\<close>
  "send s url params overload = s\<lparr>events := events s @ [Request url params overload]\<rparr>"

definition receive :: "state \<Rightarrow> response \<Rightarrow> state" where
  \<comment> \<open>line 59, and lines 62 to 64 on status 200\<close>
  "receive s r =
     (let s1 = s\<lparr>query_count := query_count s + 1\<rparr> in
      if status r = 200 then
        s1\<lparr>query_time_log := query_time_log s1 @
               [\<lparr>log_request_id = request_id (body r), query_timestamp = clock r\<rparr>],
           results := results s1 @ [body r]\<rparr>
      else s1)"

definition raise_for_status :: "int \<Rightarrow> bool" where
  \<comment> \<open>\<^verbatim>\<open>aiohttp.ClientResponse.raise_for_status\<close> raises \<^verbatim>\<open>ClientResponseError\<close> when the
      status is 400 or higher and does nothing below 400.\<close>
  "raise_for_status st = (400 \<le> st)"

text \<open>
  \<^verbatim>\<open>query_all(url, payload, overload)\<close> run against the responses the upstream gives, one
  per request. The continuation call \<^verbatim>\<open>self.query_all(next_url)\<close> takes the default
  \<^verbatim>\<open>payload={}\<close>: that one shared dict holds nothing but \<^verbatim>\<open>apiKey\<close>, which line 49
  writes again, so the empty dict stands for it.
\<close>

fun query_all :: "pyval \<Rightarrow> state \<Rightarrow> string \<Rightarrow> payload \<Rightarrow> bool \<Rightarrow> response list \<Rightarrow> outcome" where
  "query_all key s url payload overload [] =
     Awaiting (send (govern s overload) url (AList.update ''apiKey'' key payload) overload)"
| "query_all key s url payload overload (r # rs) =
     (let payload1 = AList.update ''apiKey'' key payload;
          s1 = send (govern s overload) url payload1 overload;
          s2 = receive s1 r
      in if status r = 200 then
           (case next_url (body r) of
              None \<Rightarrow> Returned s2
            | Some n \<Rightarrow> if n \<noteq> [] then query_all key s2 n [] False rs else Returned s2)
         else if status r = 429 then query_all key s2 url payload1 True rs
         else if raise_for_status (status r) then Raised (HTTPError (status r)) s2
         else Returned s2)"

declare query_all.simps(2) [simp del]

definition init :: state where
  \<comment> \<open>\<^verbatim>\<open>__init__\<close>, lines 32 to 37\<close>
  "init = \<lparr>query_count = 0, query_time_log = [], results = [], clean_results = [], events = []\<rparr>"

fun state_of :: "outcome \<Rightarrow> state" where
  "state_of (Returned s) = s"
| "state_of (Raised e s) = s"
| "state_of (Awaiting s) = s"

definition continues :: "response \<Rightarrow> bool" where
  \<comment> \<open>the responses after which \<^verbatim>\<open>query_all\<close> sends another request\<close>
  "continues r =
     (status r = 429 \<or>
      (status r = 200 \<and> (case next_url (body r) of None \<Rightarrow> False | Some n \<Rightarrow> n \<noteq> [])))"

definition chain :: "response list \<Rightarrow> bool" where
  \<comment> \<open>a finite chain: every response but the last asks for another request\<close>
  "chain rs = (rs \<noteq> [] \<and> list_all continues (butlast rs) \<and> \<not> continues (last rs))"

definition fetch :: "(state \<Rightarrow> outcome) \<Rightarrow> (state \<Rightarrow> error + state) \<Rightarrow> state \<Rightarrow> outcome" where
  \<comment> \<open>\<^verbatim>\<open>query_data\<close> and \<^verbatim>\<open>clean_data\<close> are the methods of the subclass; the generator
      of line 92 is created without running its body (see \<open>make_clean_generator\<close>).\<close>
  "fetch query_data clean_data s =
     (case query_data s of
        Returned s1 \<Rightarrow> (case clean_data s1 of Inl e \<Rightarrow> Raised e s1 | Inr s2 \<Rightarrow> Returned s2)
      | Raised e s1 \<Rightarrow> Raised e s1
      | Awaiting s1 \<Rightarrow> Awaiting s1)"

section \<open>Batch sequencer\<close>

definition py_round :: "rat \<Rightarrow> int" where
  \<comment> \<open>Python's \<^verbatim>\<open>round(x)\<close>: to the nearest integer, a tie to the even one. For
      \<^verbatim>\<open>60000 / n\<close> with a positive integer \<open>n\<close> the float quotient rounds as the exact
      quotient does: a tie \<open>k + 1/2\<close> is a float, and any other quotient is at least
      \<open>1 / (2 n)\<close> away from a tie, far more than the float error.\<close>
  "py_round x =
     (let f = \<lfloor>x\<rfloor>; d = x - of_int f in
      if d < 1 / 2 then f else if 1 / 2 < d then f + 1 else if even f then f else f + 1)"

function batches :: "nat \<Rightarrow> 'a list \<Rightarrow> nat \<Rightarrow> 'a list list" where
  \<comment> \<open>the loop \<^verbatim>\<open>for i in range(0, len(xs), batch_size): yield xs[i : i + batch_size]\<close>
      from the index \<open>i\<close> on\<close>
  "batches batch_size xs i =
     (if i < length xs \<and> 0 < batch_size
      then take batch_size (drop i xs) # batches batch_size xs (i + batch_size)
      else [])"
  by pat_completeness auto
termination
  by (relation "measure (\<lambda>(b, xs, i). length xs - i)") auto

declare batches.simps [simp del]

definition make_clean_generator :: "state \<Rightarrow> error + row list list" where
  \<comment> \<open>The batches the generator yields when it is consumed to its end, or the exception
      its first step raises. \<^verbatim>\<open>len\<close> of a record is its number of keys.\<close>
  "make_clean_generator s =
     (case clean_results s of
        [] \<Rightarrow> Inl IndexError
      | r # _ \<Rightarrow>
          (let record_size = int (length r) in
           if record_size = 0 then Inl ZeroDivisionError
           else
             (let batch_size = py_round (60000 / of_int record_size) in
              if batch_size = 0 then Inl ValueError
              else Inr (batches (nat batch_size) (clean_results s) 0))))"

section \<open>Record normalizers\<close>

definition py_get :: "row \<Rightarrow> string \<Rightarrow> pyval" where
  \<comment> \<open>\<^verbatim>\<open>record.get(key)\<close>\<close>
  "py_get record k = (case map_of record k of None \<Rightarrow> PNone | Some v \<Rightarrow> v)"

definition py_index :: "row \<Rightarrow> string \<Rightarrow> error + pyval" where
  \<comment> \<open>\<^verbatim>\<open>record[key]\<close>\<close>
  "py_index record k = (case map_of record k of None \<Rightarrow> Inl KeyError | Some v \<Rightarrow> Inr v)"

definition dict_comp :: "('k \<times> 'v) list \<Rightarrow> ('k \<times> 'v) list" where
  \<comment> \<open>a dict comprehension, from its key-value pairs in iteration order\<close>
  "dict_comp kvs = foldl (\<lambda>d (k, v). AList.update k v d) [] kvs"

definition dict_key :: "pyval \<Rightarrow> pyval" where
  \<comment> \<open>the representative of a dict key: Python has \<^verbatim>\<open>True == 1 == 1.0\<close> with equal hashes\<close>
  "dict_key v =
     (case v of
        PBool b \<Rightarrow> PInt (if b then 1 else 0)
      | PFloat q \<Rightarrow> (if q = of_int \<lfloor>q\<rfloor> then PInt \<lfloor>q\<rfloor> else PFloat q)
      | _ \<Rightarrow> v)"

fun for_each :: "'a list \<Rightarrow> ('s \<Rightarrow> 'a \<Rightarrow> error + 's) \<Rightarrow> 's \<Rightarrow> error + 's" where
  \<comment> \<open>a \<^verbatim>\<open>for\<close> loop whose body may raise\<close>
  "for_each [] f s = Inr s"
| "for_each (x # xs) f s = (case f s x of Inl e \<Rightarrow> Inl e | Inr s' \<Rightarrow> for_each xs f s')"

definition append_clean :: "state \<Rightarrow> row \<Rightarrow> state" where
  \<comment> \<open>\<^verbatim>\<open>self.clean_results.append(t)\<close>\<close>
  "append_clean s t = s\<lparr>clean_results := clean_results s @ [t]\<rparr>"

definition selected_keys :: "string list" where
  "selected_keys =
     [''ticker'', ''name'', ''type'', ''active'', ''market'', ''locale'',
      ''primary_exchange'', ''currency_name'', ''cik'']"

definition stock_row :: "row \<Rightarrow> row" where
  "stock_row ticker = dict_comp (map (\<lambda>x. (x, py_get ticker x)) selected_keys)"

definition StockMetaData_clean_data :: "state \<Rightarrow> error + state" where
  "StockMetaData_clean_data s =
     for_each (results s)
       (\<lambda>s result_list.
          for_each (page_results result_list)
            (\<lambda>s ticker. Inr (append_clean s (stock_row ticker))) s) s"

definition price_key_mapping :: "(string \<times> string) list" where
  "price_key_mapping =
     [(''v'', ''volume''), (''vw'', ''volume_weight_price''), (''c'', ''close_price''),
      (''o'', ''open_price''), (''h'', ''high_price''), (''l'', ''low_price''),
      (''t'', ''as_of_date''), (''n'', ''number_of_transactions''), (''otc'', ''otc'')]"

definition price_row :: "(pyval \<Rightarrow> error + pyval) \<Rightarrow> int \<Rightarrow> row \<Rightarrow> error + row" where
  \<comment> \<open>\<open>to_date\<close> is \<^verbatim>\<open>timestamp_to_datetime(_, msec_units=True)\<close> of the absent \<^verbatim>\<open>utils\<close>,
      a parameter that may raise\<close>
  "price_row to_date ticker_id record =
     (let t = dict_comp (map (\<lambda>(key, name). (name, py_get record key)) price_key_mapping) in
      case py_index t ''as_of_date'' of
        Inl e \<Rightarrow> Inl e
      | Inr ms \<Rightarrow>
          (case to_date ms of
             Inl e \<Rightarrow> Inl e
           | Inr d \<Rightarrow>
               Inr (AList.update ''ticker_id'' (PInt ticker_id)
                      (AList.update ''as_of_date'' d t))))"

definition HistoricalStockPrices_clean_data ::
    "(pyval \<Rightarrow> error + pyval) \<Rightarrow> int \<Rightarrow> state \<Rightarrow> error + state" where
  "HistoricalStockPrices_clean_data to_date ticker_id s =
     for_each (results s)
       (\<lambda>s page.
          for_each (page_results page)
            (\<lambda>s record.
               case price_row to_date ticker_id record of
                 Inl e \<Rightarrow> Inl e
               | Inr t \<Rightarrow> Inr (append_clean s t)) s) s"

definition option_key_mapping :: "(string \<times> string) list" where
  "option_key_mapping =
     [(''ticker'', ''option_ticker''), (''expiration_date'', ''expiration_date''),
      (''strike_price'', ''strike_price''), (''contract_type'', ''contract_type''),
      (''shares_per_contract'', ''shares_per_contract''),
      (''primary_exchange'', ''primary_exchange''),
      (''exercise_style'', ''exercise_style''), (''cfi'', ''cfi'')]"

definition option_row :: "int \<Rightarrow> row \<Rightarrow> row" where
  "option_row ticker_id record =
     AList.update ''underlying_ticker_id'' (PInt ticker_id)
       (dict_comp (map (\<lambda>(key, name). (name, py_get record key)) option_key_mapping))"

definition by_option_ticker :: "row list \<Rightarrow> error + row list" where
  \<comment> \<open>line 245: \<^verbatim>\<open>list({v["option_ticker"]: v for v in self.clean_results}.values())\<close>\<close>
  "by_option_ticker vs =
     (case for_each vs
             (\<lambda>d v. case py_index v ''option_ticker'' of
                       Inl e \<Rightarrow> Inl e
                     | Inr k \<Rightarrow> Inr (AList.update (dict_key k) v d)) []
      of Inl e \<Rightarrow> Inl e
       | Inr d \<Rightarrow> Inr (map snd d))"

definition OptionsContracts_clean_data :: "int \<Rightarrow> state \<Rightarrow> error + state" where
  "OptionsContracts_clean_data ticker_id s =
     for_each (results s)
       (\<lambda>s page.
          for_each (page_results page)
            (\<lambda>s record.
               (let s1 = append_clean s (option_row ticker_id record) in
                case by_option_ticker (clean_results s1) of
                  Inl e \<Rightarrow> Inl e
                | Inr vs \<Rightarrow> Inr (s1\<lparr>clean_results := vs\<rparr>))) s) s"

definition natural_key :: "row \<Rightarrow> pyval" where
  \<comment> \<open>the dict key under which line 245 files a clean record\<close>
  "natural_key v = dict_key (py_get v ''option_ticker'')"

definition raw_records :: "state \<Rightarrow> row list" where
  \<comment> \<open>the records of all raw pages, in the order the loops of \<^verbatim>\<open>clean_data\<close> visit them\<close>
  "raw_records s = concat (map page_results (results s))"

section \<open>Calendar window generator\<close>

fun str_nat :: "nat \<Rightarrow> string" where
  "str_nat n =
     (if n < 10 then [''0123456789'' ! n]
      else str_nat (n div 10) @ [''0123456789'' ! (n mod 10)])"

declare str_nat.simps [simp del]

definition str_int :: "int \<Rightarrow> string" where
  \<comment> \<open>\<^verbatim>\<open>str(i)\<close> of a Python int\<close>
  "str_int i = (if i < 0 then CHR ''-'' # str_nat (nat (- i)) else str_nat (nat i))"

function year_month_loop :: "int \<Rightarrow> int \<Rightarrow> int \<Rightarrow> int \<Rightarrow> string list \<Rightarrow> string list" where
  \<comment> \<open>the \<^verbatim>\<open>while\<close> loop of \<^verbatim>\<open>_determine_base_dates\<close>, lines 207 to 216\<close>
  "year_month_loop months_hist year month counter year_month_array =
     (if counter \<le> months_hist then
        (let year_month_array1 = year_month_array @
               [if length (str_int month) > 1 then str_int year @ ''-'' @ str_int month
                else str_int year @ ''-0'' @ str_int month]
         in if month = 1
            then year_month_loop months_hist (year - 1) 12 (counter + 1) year_month_array1
            else year_month_loop months_hist year (month - 1) (counter + 1) year_month_array1)
      else year_month_array)"
  by pat_completeness auto
termination
  by (relation "measure (\<lambda>(h, y, m, c, a). nat (h + 1 - c))") auto

declare year_month_loop.simps [simp del]

definition first_weekday_of_month :: "(string \<Rightarrow> string) \<Rightarrow> string list \<Rightarrow> string list" where
  \<comment> \<open>Modelled from the spec: \<^verbatim>\<open>utils.first_weekday_of_month\<close> is not part of the sources.
      Section 4.5: it "maps each year-month to its first business day via a vectorized
      calendar lookup"; the lookup of one year-month is the parameter \<open>cal\<close>.\<close>
  "first_weekday_of_month cal year_month_array = map cal year_month_array"

definition determine_base_dates :: "(string \<Rightarrow> string) \<Rightarrow> int \<Rightarrow> int \<Rightarrow> int \<Rightarrow> string list" where
  \<comment> \<open>\<open>year\<close> and \<open>month\<close> are those of \<^verbatim>\<open>datetime.now()\<close>\<close>
  "determine_base_dates cal months_hist year month =
     first_weekday_of_month cal (year_month_loop months_hist year month 0 [])"

section \<open>Properties of the pagination engine\<close>


lemma chain_Cons:
  "chain (r # rs) = (if rs = [] then \<not> continues r else continues r \<and> chain rs)"
  by (auto simp: chain_def)

lemma results_govern: "results (govern s ov) = results s"
  by (simp add: govern_def)

lemma results_send: "results (send s u p ov) = results s"
  by (simp add: send_def)

lemma results_receive:
  "results (receive s r) = (if status r = 200 then results s @ [body r] else results s)"
  by (simp add: receive_def Let_def)

lemma query_all_Cons_continues:
  "continues r \<Longrightarrow>
   query_all key s u p ov (r # rs) =
     query_all key (receive (send (govern s ov) u (AList.update ''apiKey'' key p) ov) r)
       (if status r = 200 then the (next_url (body r)) else u)
       (if status r = 200 then [] else AList.update ''apiKey'' key p)
       (status r \<noteq> 200) rs"
  by (auto simp: query_all.simps(2) continues_def Let_def split: option.splits)

lemma query_all_Cons_final:
  "\<not> continues r \<Longrightarrow>
   query_all key s u p ov (r # rs) =
     (if status r \<noteq> 200 \<and> raise_for_status (status r)
      then Raised (HTTPError (status r))
             (receive (send (govern s ov) u (AList.update ''apiKey'' key p) ov) r)
      else Returned (receive (send (govern s ov) u (AList.update ''apiKey'' key p) ov) r))"
  by (auto simp: query_all.simps(2) continues_def Let_def split: option.splits)

lemma query_all_chain_results:
  "chain rs \<Longrightarrow>
   (\<exists>s'. (query_all key s u p ov rs = Returned s' \<or>
          (\<exists>e. query_all key s u p ov rs = Raised e s')) \<and>
         results s' = results s @ map body (filter (\<lambda>r. status r = 200) rs))"
proof (induction rs arbitrary: s u p ov)
  case Nil
  then show ?case by (simp add: chain_def)
next
  case (Cons r rs)
  show ?case
  proof (cases "rs = []")
    case True
    with Cons.prems have "\<not> continues r" by (simp add: chain_Cons)
    then show ?thesis using True
      by (simp add: query_all_Cons_final results_receive results_send results_govern)
  next
    case False
    with Cons.prems have c: "continues r" and ch: "chain rs" by (simp_all add: chain_Cons)
    let ?s2 = "receive (send (govern s ov) u (AList.update ''apiKey'' key p) ov) r"
    let ?u = "if status r = 200 then the (next_url (body r)) else u"
    let ?p = "if status r = 200 then [] else AList.update ''apiKey'' key p"
    from Cons.IH [OF ch, of ?s2 ?u ?p "status r \<noteq> 200"]
    obtain s' where
      o: "query_all key ?s2 ?u ?p (status r \<noteq> 200) rs = Returned s' \<or>
          (\<exists>e. query_all key ?s2 ?u ?p (status r \<noteq> 200) rs = Raised e s')"
      and r: "results s' = results ?s2 @ map body (filter (\<lambda>r. status r = 200) rs)"
      by blast
    have "results s' = results s @ map body (filter (\<lambda>r. status r = 200) (r # rs))"
      using r by (simp add: results_receive results_send results_govern)
    moreover have "query_all key s u p ov (r # rs) = Returned s' \<or>
          (\<exists>e. query_all key s u p ov (r # rs) = Raised e s')"
      using o by (simp only: query_all_Cons_continues [OF c])
    ultimately show ?thesis by blast
  qed
qed

lemma query_all_awaiting_iff:
  "(\<exists>s'. query_all key s u p ov rs = Awaiting s') = list_all continues rs"
proof (induction rs arbitrary: s u p ov)
  case Nil
  then show ?case by simp
next
  case (Cons r rs)
  show ?case
  proof (cases "continues r")
    case True
    then show ?thesis using Cons.IH by (simp add: query_all_Cons_continues)
  next
    case False
    then show ?thesis by (simp add: query_all_Cons_final)
  qed
qed


lemma events_receive: "events (receive s r) = events s"
  by (simp add: receive_def Let_def)

lemma events_send: "events (send s u p ov) = events s @ [Request u p ov]"
  by (simp add: send_def)

lemma events_query_all:
  "\<exists>rest. events (state_of (query_all key s u p ov rs)) =
          events (send (govern s ov) u (AList.update ''apiKey'' key p) ov) @ rest"
proof (induction rs arbitrary: s u p ov)
  case Nil
  then show ?case by simp
next
  case (Cons r rs)
  let ?s1 = "send (govern s ov) u (AList.update ''apiKey'' key p) ov"
  show ?case
  proof (cases "continues r")
    case True
    let ?u = "if status r = 200 then the (next_url (body r)) else u"
    let ?p = "if status r = 200 then [] else AList.update ''apiKey'' key p"
    from Cons.IH [of "receive ?s1 r" ?u ?p "status r \<noteq> 200"]
    obtain rest where
      "events (state_of (query_all key (receive ?s1 r) ?u ?p (status r \<noteq> 200) rs)) =
       events (send (govern (receive ?s1 r) (status r \<noteq> 200)) ?u
                 (AList.update ''apiKey'' key ?p) (status r \<noteq> 200)) @ rest"
      by blast
    then have "\<exists>rest'. events (state_of (query_all key (receive ?s1 r) ?u ?p (status r \<noteq> 200) rs)) =
       events ?s1 @ rest'"
      by (auto simp: events_send events_receive govern_def)
    then show ?thesis
      by (simp only: query_all_Cons_continues [OF True])
  next
    case False
    then show ?thesis
      by (simp add: query_all_Cons_final events_receive)
  qed
qed

lemma query_all_append_final:
  "query_all key s0 u p ov pre = Awaiting s \<Longrightarrow> \<not> continues r \<Longrightarrow>
   query_all key s0 u p ov (pre @ r # post) =
     (if status r \<noteq> 200 \<and> raise_for_status (status r)
      then Raised (HTTPError (status r)) (receive s r)
      else Returned (receive s r))"
proof (induction pre arbitrary: s0 u p ov)
  case Nil
  then show ?case by (simp add: query_all_Cons_final)
next
  case (Cons x pre)
  show ?case
  proof (cases "continues x")
    case True
    from Cons.prems(1) have
      "query_all key (receive (send (govern s0 ov) u (AList.update ''apiKey'' key p) ov) x)
         (if status x = 200 then the (next_url (body x)) else u)
         (if status x = 200 then [] else AList.update ''apiKey'' key p)
         (status x \<noteq> 200) pre = Awaiting s"
      by (simp only: query_all_Cons_continues [OF True])
    from Cons.IH [OF this Cons.prems(2)] show ?thesis
      by (simp only: append_Cons query_all_Cons_continues [OF True])
  next
    case False
    with Cons.prems(1) show ?thesis by (simp add: query_all_Cons_final split: if_splits)
  qed
qed

lemma query_all_append_continues:
  "query_all key s0 u p ov pre = Awaiting s \<Longrightarrow> continues r \<Longrightarrow>
   \<exists>u' p'. query_all key s0 u p ov (pre @ [r]) =
     Awaiting (send (govern (receive s r) (status r \<noteq> 200)) u' p' (status r \<noteq> 200))"
proof (induction pre arbitrary: s0 u p ov)
  case Nil
  then show ?case by (auto simp add: query_all_Cons_continues)
next
  case (Cons x pre)
  show ?case
  proof (cases "continues x")
    case True
    from Cons.prems(1) have
      "query_all key (receive (send (govern s0 ov) u (AList.update ''apiKey'' key p) ov) x)
         (if status x = 200 then the (next_url (body x)) else u)
         (if status x = 200 then [] else AList.update ''apiKey'' key p)
         (status x \<noteq> 200) pre = Awaiting s"
      by (simp only: query_all_Cons_continues [OF True])
    from Cons.IH [OF this Cons.prems(2)] show ?thesis
      by (simp only: append_Cons query_all_Cons_continues [OF True])
  next
    case False
    with Cons.prems(1) show ?thesis by (simp add: query_all_Cons_final split: if_splits)
  qed
qed

lemma query_all_raised_iff:
  "(\<exists>s'. query_all key s u p ov rs = Raised e s') =
   (\<exists>r. find (\<lambda>r. \<not> continues r) rs = Some r \<and> status r \<noteq> 200 \<and>
        raise_for_status (status r) \<and> e = HTTPError (status r))"
proof (induction rs arbitrary: s u p ov)
  case Nil
  then show ?case by simp
next
  case (Cons r rs)
  show ?case
  proof (cases "continues r")
    case True
    then show ?thesis using Cons.IH by (simp add: query_all_Cons_continues)
  next
    case False
    then show ?thesis by (auto simp add: query_all_Cons_final)
  qed
qed


text \<open>
  Claim C1. For every finite chain of upstream responses (each 200 response with or
  without a \<^verbatim>\<open>next_url\<close>, any number of 429 responses in between), \<^verbatim>\<open>query_all\<close> ends: it
  returns or raises, it is not left waiting. When it returns, \<^verbatim>\<open>results\<close> has gained the
  bodies of the 200 responses of the chain, one entry for each, in the order of the
  requests, so that no page is collected twice. A call is left waiting for a response
  only while every response so far has asked for another request.
\<close>

theorem query_all_terminates_in_order:
  "chain rs \<Longrightarrow>
   (\<exists>s'. query_all key s u p ov rs = Returned s' \<or>
         (\<exists>e. query_all key s u p ov rs = Raised e s')) \<and>
   (\<forall>s'. query_all key s u p ov rs = Returned s' \<longrightarrow>
         results s' = results s @ map body (filter (\<lambda>r. status r = 200) rs) \<and>
         length (results s') = length (results s) + length (filter (\<lambda>r. status r = 200) rs)) \<and>
   ((\<exists>s'. query_all key s u p ov qs = Awaiting s') = list_all continues qs)"
proof -
  note w = query_all_awaiting_iff [of key s u p ov qs]
  assume "chain rs"
  from query_all_chain_results [OF this, of key s u p ov]
  obtain s' where
    o: "query_all key s u p ov rs = Returned s' \<or> (\<exists>e. query_all key s u p ov rs = Raised e s')"
    and r: "results s' = results s @ map body (filter (\<lambda>r. status r = 200) rs)"
    by blast
  from o have "\<exists>s'. query_all key s u p ov rs = Returned s' \<or>
         (\<exists>e. query_all key s u p ov rs = Raised e s')" by blast
  moreover have "\<forall>t. query_all key s u p ov rs = Returned t \<longrightarrow>
         results t = results s @ map body (filter (\<lambda>r. status r = 200) rs) \<and>
         length (results t) = length (results s) + length (filter (\<lambda>r. status r = 200) rs)"
    using o r by auto
  ultimately show ?thesis using w by blast
qed

theorem query_all_terminates_in_order_witness:
  "chain [\<lparr>status = 200, body = \<lparr>request_id = Some ''a'', next_url = Some ''u2'', page_results = []\<rparr>, clock = 1\<rparr>,
          \<lparr>status = 429, body = \<lparr>request_id = None, next_url = None, page_results = []\<rparr>, clock = 2\<rparr>,
          \<lparr>status = 200, body = \<lparr>request_id = Some ''b'', next_url = None, page_results = []\<rparr>, clock = 3\<rparr>] \<and>
   results (state_of (query_all (PStr ''k'') init ''u1'' [] False
     [\<lparr>status = 200, body = \<lparr>request_id = Some ''a'', next_url = Some ''u2'', page_results = []\<rparr>, clock = 1\<rparr>,
      \<lparr>status = 429, body = \<lparr>request_id = None, next_url = None, page_results = []\<rparr>, clock = 2\<rparr>,
      \<lparr>status = 200, body = \<lparr>request_id = Some ''b'', next_url = None, page_results = []\<rparr>, clock = 3\<rparr>])) =
     [\<lparr>request_id = Some ''a'', next_url = Some ''u2'', page_results = []\<rparr>,
      \<lparr>request_id = Some ''b'', next_url = None, page_results = []\<rparr>]"
proof -
  let ?rs = "[\<lparr>status = 200, body = \<lparr>request_id = Some ''a'', next_url = Some ''u2'', page_results = []\<rparr>, clock = 1\<rparr>,
          \<lparr>status = 429, body = \<lparr>request_id = None, next_url = None, page_results = []\<rparr>, clock = 2\<rparr>,
          \<lparr>status = 200, body = \<lparr>request_id = Some ''b'', next_url = None, page_results = []\<rparr>, clock = (3::rat)\<rparr>]"
  have h: "chain ?rs" by (simp add: chain_def continues_def)
  have "\<exists>s'. query_all (PStr ''k'') init ''u1'' [] False ?rs = Returned s'"
    by (simp add: query_all.simps(2) Let_def)
  with query_all_terminates_in_order [OF h, of "PStr ''k''" init "''u1''" "[]" False]
  show ?thesis using h by (auto simp: init_def)
qed


lemma api_sleep_time_eq:
  "api_sleep_time s =
     (if length (query_time_log s) < 3 then 60
      else min 60 \<lceil>query_timestamp (last (query_time_log s)) -
                   query_timestamp (hd (query_time_log s))\<rceil>)"
  by (auto simp: api_sleep_time_def timestamp_to_datetime_def Let_def min_def)

lemma events_query_all_ex:
  "\<exists>rest. events (state_of (query_all key s u p ov rs)) =
          events (state_of (query_all key s u p ov [])) @ rest"
  using events_query_all [of key s u p ov rs] by simp

text \<open>
  Claim C2. On every call of \<^verbatim>\<open>query_all\<close>: when \<^verbatim>\<open>query_count\<close> has reached
  \<^verbatim>\<open>MAX_QUERY_PER_MINUTE\<close> = 4 or \<^verbatim>\<open>overload\<close> is set, the call sleeps before its request,
  for the smaller of 60 and the ceiling of the seconds between the oldest and the newest
  entry of \<^verbatim>\<open>query_time_log\<close>, or for 60 seconds when the log has fewer than 3 entries,
  and the request goes out with \<^verbatim>\<open>query_count\<close> 0 and an empty log. When
  \<^verbatim>\<open>query_count\<close> is below 4 and \<^verbatim>\<open>overload\<close> is not set, the request goes out with no
  sleep before it and with the counter and the log as they were. Whatever responses
  follow, the trace of the call starts this way.
\<close>

theorem query_all_throttle:
  "MAX_QUERY_PER_MINUTE = 4 \<and>
   (query_count s \<ge> MAX_QUERY_PER_MINUTE \<or> overload \<longrightarrow>
      (\<exists>s1 rest.
         query_all key s url payload overload [] = Awaiting s1 \<and>
         events s1 = events s @
           [Sleep (if length (query_time_log s) < 3 then 60
                   else min 60 \<lceil>query_timestamp (last (query_time_log s)) -
                                 query_timestamp (hd (query_time_log s))\<rceil>),
            Request url (AList.update ''apiKey'' key payload) overload] \<and>
         query_count s1 = 0 \<and> query_time_log s1 = [] \<and>
         events (state_of (query_all key s url payload overload rs)) = events s1 @ rest)) \<and>
   (query_count s < MAX_QUERY_PER_MINUTE \<and> \<not> overload \<longrightarrow>
      (\<exists>s1 rest.
         query_all key s url payload overload [] = Awaiting s1 \<and>
         events s1 = events s @ [Request url (AList.update ''apiKey'' key payload) overload] \<and>
         query_count s1 = query_count s \<and> query_time_log s1 = query_time_log s \<and>
         events (state_of (query_all key s url payload overload rs)) = events s1 @ rest))"
proof -
  obtain rest where
    r: "events (state_of (query_all key s url payload overload rs)) =
        events (state_of (query_all key s url payload overload [])) @ rest"
    using events_query_all_ex by blast
  have a: "query_count s \<ge> MAX_QUERY_PER_MINUTE \<or> overload \<Longrightarrow>
      events (send (govern s overload) url (AList.update ''apiKey'' key payload) overload) =
        events s @
           [Sleep (if length (query_time_log s) < 3 then 60
                   else min 60 \<lceil>query_timestamp (last (query_time_log s)) -
                                 query_timestamp (hd (query_time_log s))\<rceil>),
            Request url (AList.update ''apiKey'' key payload) overload] \<and>
      query_count (send (govern s overload) url (AList.update ''apiKey'' key payload) overload) = 0 \<and>
      query_time_log (send (govern s overload) url (AList.update ''apiKey'' key payload) overload) = []"
    by (simp add: send_def govern_def api_sleep_time_eq)
  have b: "query_count s < MAX_QUERY_PER_MINUTE \<and> \<not> overload \<Longrightarrow>
      send (govern s overload) url (AList.update ''apiKey'' key payload) overload =
        s\<lparr>events := events s @ [Request url (AList.update ''apiKey'' key payload) overload]\<rparr>"
    by (simp add: send_def govern_def)
  show ?thesis
    using r a b by (auto simp: MAX_QUERY_PER_MINUTE_def)
qed

theorem query_all_throttle_witness:
  "query_count (init\<lparr>query_count := 4, query_time_log :=
       [\<lparr>log_request_id = None, query_timestamp = 100\<rparr>,
        \<lparr>log_request_id = None, query_timestamp = 110\<rparr>,
        \<lparr>log_request_id = None, query_timestamp = 251 / 2\<rparr>]\<rparr>) \<ge> MAX_QUERY_PER_MINUTE \<and>
   (\<exists>s1. query_all (PStr ''k'')
           (init\<lparr>query_count := 4, query_time_log :=
              [\<lparr>log_request_id = None, query_timestamp = 100\<rparr>,
               \<lparr>log_request_id = None, query_timestamp = 110\<rparr>,
               \<lparr>log_request_id = None, query_timestamp = 251 / 2\<rparr>]\<rparr>)
           ''u'' [] False [] = Awaiting s1 \<and>
         events s1 = [Sleep 26, Request ''u'' [(''apiKey'', PStr ''k'')] False] \<and>
         query_count s1 = 0 \<and> query_time_log s1 = []) \<and>
   query_count init < MAX_QUERY_PER_MINUTE \<and>
   (\<exists>s1. query_all (PStr ''k'') init ''u'' [] False [] = Awaiting s1 \<and>
         events s1 = [Request ''u'' [(''apiKey'', PStr ''k'')] False] \<and>
         query_count s1 = 0 \<and> query_time_log s1 = [])"
proof -
  let ?s = "init\<lparr>query_count := 4, query_time_log :=
       [\<lparr>log_request_id = None, query_timestamp = 100\<rparr>,
        \<lparr>log_request_id = None, query_timestamp = 110\<rparr>,
        \<lparr>log_request_id = None, query_timestamp = 251 / 2\<rparr>]\<rparr>"
  have c: "\<lceil>(51 / 2 :: rat)\<rceil> = 26" by (simp add: ceiling_eq_iff)
  have h1: "query_count ?s \<ge> MAX_QUERY_PER_MINUTE" by (simp add: MAX_QUERY_PER_MINUTE_def)
  have h2: "query_count init < MAX_QUERY_PER_MINUTE \<and> \<not> False"
    by (simp add: MAX_QUERY_PER_MINUTE_def init_def)
  from query_all_throttle [of ?s False "PStr ''k''" "''u''" "[]" "[]"] h1
  have "\<exists>s1. query_all (PStr ''k'') ?s ''u'' [] False [] = Awaiting s1 \<and>
         events s1 = [Sleep 26, Request ''u'' [(''apiKey'', PStr ''k'')] False] \<and>
         query_count s1 = 0 \<and> query_time_log s1 = []"
    by (auto simp: c init_def simp del: query_all.simps(1))
  moreover
  from query_all_throttle [of init False "PStr ''k''" "''u''" "[]" "[]"] h2
  have "\<exists>s1. query_all (PStr ''k'') init ''u'' [] False [] = Awaiting s1 \<and>
         events s1 = [Request ''u'' [(''apiKey'', PStr ''k'')] False] \<and>
         query_count s1 = 0 \<and> query_time_log s1 = []"
    by (auto simp: init_def simp del: query_all.simps(1))
  ultimately show ?thesis using h1 h2 by blast
qed


lemma receive_fields:
  "query_count (receive s r) = query_count s + 1"
  "results (receive s r) = (if status r = 200 then results s @ [body r] else results s)"
  "query_time_log (receive s r) =
     (if status r = 200
      then query_time_log s @
             [\<lparr>log_request_id = request_id (body r), query_timestamp = clock r\<rparr>]
      else query_time_log s)"
  by (simp_all add: receive_def Let_def)

text \<open>
  Claim C10. Every response \<^verbatim>\<open>query_all\<close> receives adds exactly one to \<^verbatim>\<open>query_count\<close>,
  whatever its status, while \<^verbatim>\<open>results\<close> and \<^verbatim>\<open>query_time_log\<close> gain one entry each for
  a 200 response and none otherwise; this is what \<^verbatim>\<open>query_all\<close> does with the response
  that answers a request in flight. In particular, when the chain ends in a fatal status
  (400 or above, not 429), the error is raised with \<^verbatim>\<open>results\<close> and \<^verbatim>\<open>query_time_log\<close> as
  they were when the failing request went out, and with \<^verbatim>\<open>query_count\<close> one higher.
\<close>

theorem query_all_frame:
  "query_count (receive s r) = query_count s + 1 \<and>
   results (receive s r) = (if status r = 200 then results s @ [body r] else results s) \<and>
   query_time_log (receive s r) =
     (if status r = 200
      then query_time_log s @
             [\<lparr>log_request_id = request_id (body r), query_timestamp = clock r\<rparr>]
      else query_time_log s) \<and>
   (query_all key s0 u p ov pre = Awaiting s \<longrightarrow>
      (continues r \<longrightarrow>
         (\<exists>u' p'. query_all key s0 u p ov (pre @ [r]) =
            Awaiting (send (govern (receive s r) (status r \<noteq> 200)) u' p' (status r \<noteq> 200)))) \<and>
      (\<not> continues r \<longrightarrow>
         state_of (query_all key s0 u p ov (pre @ r # post)) = receive s r) \<and>
      (status r \<noteq> 200 \<and> status r \<noteq> 429 \<and> 400 \<le> status r \<longrightarrow>
         (\<exists>s'. query_all key s0 u p ov (pre @ r # post) = Raised (HTTPError (status r)) s' \<and>
               results s' = results s \<and> query_time_log s' = query_time_log s \<and>
               query_count s' = query_count s + 1)))"
proof -
  have c: "query_all key s0 u p ov pre = Awaiting s \<Longrightarrow> continues r \<Longrightarrow>
         (\<exists>u' p'. query_all key s0 u p ov (pre @ [r]) =
            Awaiting (send (govern (receive s r) (status r \<noteq> 200)) u' p' (status r \<noteq> 200)))"
    by (rule query_all_append_continues)
  have f: "query_all key s0 u p ov pre = Awaiting s \<Longrightarrow> \<not> continues r \<Longrightarrow>
         state_of (query_all key s0 u p ov (pre @ r # post)) = receive s r"
    by (simp add: query_all_append_final)
  have g: "query_all key s0 u p ov pre = Awaiting s \<Longrightarrow>
         status r \<noteq> 200 \<and> status r \<noteq> 429 \<and> 400 \<le> status r \<Longrightarrow>
         (\<exists>s'. query_all key s0 u p ov (pre @ r # post) = Raised (HTTPError (status r)) s' \<and>
               results s' = results s \<and> query_time_log s' = query_time_log s \<and>
               query_count s' = query_count s + 1)"
  proof -
    assume a: "query_all key s0 u p ov pre = Awaiting s"
      and b: "status r \<noteq> 200 \<and> status r \<noteq> 429 \<and> 400 \<le> status r"
    from b have n: "\<not> continues r" by (simp add: continues_def)
    from query_all_append_final [OF a n, of post] b
    have "query_all key s0 u p ov (pre @ r # post) = Raised (HTTPError (status r)) (receive s r)"
      by (simp add: raise_for_status_def)
    then show ?thesis using b by (simp add: receive_fields)
  qed
  show ?thesis
    using c f g by (simp only: receive_fields) blast
qed

theorem query_all_frame_witness:
  "query_all (PStr ''k'') init ''u1'' [] False
     [\<lparr>status = 200, body = \<lparr>request_id = Some ''a'', next_url = Some ''u2'', page_results = []\<rparr>, clock = 1\<rparr>] =
     Awaiting \<lparr>query_count = 1,
               query_time_log = [\<lparr>log_request_id = Some ''a'', query_timestamp = 1\<rparr>],
               results = [\<lparr>request_id = Some ''a'', next_url = Some ''u2'', page_results = []\<rparr>],
               clean_results = [],
               events = [Request ''u1'' [(''apiKey'', PStr ''k'')] False,
                         Request ''u2'' [(''apiKey'', PStr ''k'')] False]\<rparr> \<and>
   (\<exists>s'. query_all (PStr ''k'') init ''u1'' [] False
      ([\<lparr>status = 200, body = \<lparr>request_id = Some ''a'', next_url = Some ''u2'', page_results = []\<rparr>, clock = 1\<rparr>] @
        \<lparr>status = 500, body = \<lparr>request_id = None, next_url = None, page_results = []\<rparr>, clock = 2\<rparr> # []) =
        Raised (HTTPError 500) s' \<and>
      results s' = [\<lparr>request_id = Some ''a'', next_url = Some ''u2'', page_results = []\<rparr>] \<and>
      query_time_log s' = [\<lparr>log_request_id = Some ''a'', query_timestamp = 1\<rparr>] \<and>
      query_count s' = 2)"
proof -
  let ?pre = "[\<lparr>status = 200, body = \<lparr>request_id = Some ''a'', next_url = Some ''u2'', page_results = []\<rparr>, clock = (1::rat)\<rparr>]"
  let ?r = "\<lparr>status = 500, body = \<lparr>request_id = None, next_url = None, page_results = []\<rparr>, clock = (2::rat)\<rparr>"
  let ?s = "\<lparr>query_count = 1,
               query_time_log = [\<lparr>log_request_id = Some ''a'', query_timestamp = 1\<rparr>],
               results = [\<lparr>request_id = Some ''a'', next_url = Some ''u2'', page_results = []\<rparr>],
               clean_results = [],
               events = [Request ''u1'' [(''apiKey'', PStr ''k'')] False,
                         Request ''u2'' [(''apiKey'', PStr ''k'')] False]\<rparr>"
  have h: "query_all (PStr ''k'') init ''u1'' [] False ?pre = Awaiting ?s"
    by (simp add: query_all.simps(2) Let_def init_def send_def govern_def receive_def
          MAX_QUERY_PER_MINUTE_def)
  from query_all_frame [of ?s ?r "PStr ''k''" init "''u1''" "[]" False ?pre "[]"] h
  show ?thesis by simp
qed


lemma query_all_returned_iff:
  "(\<exists>s'. query_all key s u p ov rs = Returned s') =
   (\<exists>r. find (\<lambda>r. \<not> continues r) rs = Some r \<and>
        (status r = 200 \<or> \<not> raise_for_status (status r)))"
proof (induction rs arbitrary: s u p ov)
  case Nil
  then show ?case by simp
next
  case (Cons r rs)
  show ?case
  proof (cases "continues r")
    case True
    then show ?thesis using Cons.IH by (simp add: query_all_Cons_continues)
  next
    case False
    then show ?thesis by (auto simp add: query_all_Cons_final)
  qed
qed

lemma update_apiKey_twice:
  "AList.update ''apiKey'' key (AList.update ''apiKey'' key p) = AList.update ''apiKey'' key p"
  by simp

text \<open>
  Claim C3, as amended. \<^verbatim>\<open>query_all\<close> raises an error that carries the HTTP status exactly
  when the first response that ends the chain has a status of 400 or above other than
  429; it returns normally exactly when that response has a status below 400, be it
  200 or not (a 204 or a 304 ends the chain in silence). A raised status is never 429: a
  429 response is retried with the same url and the same parameters and with
  \<^verbatim>\<open>overload\<close> set, after a sleep. An error raised by \<^verbatim>\<open>query_all\<close> leaves \<^verbatim>\<open>fetch\<close> as it
  is, whatever \<^verbatim>\<open>clean_data\<close> is.
\<close>

theorem query_all_error_statuses:
  "((\<exists>s'. query_all key s u p ov rs = Raised e s') =
      (\<exists>r. find (\<lambda>r. \<not> continues r) rs = Some r \<and> 400 \<le> status r \<and>
           status r \<noteq> 429 \<and> e = HTTPError (status r))) \<and>
   ((\<exists>s'. query_all key s u p ov rs = Returned s') =
      (\<exists>r. find (\<lambda>r. \<not> continues r) rs = Some r \<and> status r < 400)) \<and>
   (query_all key s u p ov rs = Raised (HTTPError c) s' \<longrightarrow> c \<noteq> 429 \<and> 400 \<le> c) \<and>
   (status r = 429 \<longrightarrow>
      query_all key s u p ov (r # rs) =
        query_all key (receive (send (govern s ov) u (AList.update ''apiKey'' key p) ov) r)
          u (AList.update ''apiKey'' key p) True rs \<and>
      (\<exists>s1 t. query_all key s u p ov [r] = Awaiting s1 \<and>
         events s1 =
           events (send (govern s ov) u (AList.update ''apiKey'' key p) ov) @
           [Sleep t, Request u (AList.update ''apiKey'' key p) True])) \<and>
   (query_all key s u p ov rs = Raised e s' \<longrightarrow>
      fetch (\<lambda>s. query_all key s u p ov rs) clean_data s = Raised e s')"
proof -
  have nc: "\<And>x. find (\<lambda>r. \<not> continues r) rs = Some x \<Longrightarrow> status x \<noteq> 429"
    by (auto simp: find_Some_iff continues_def)
  have a: "(\<exists>s'. query_all key s u p ov rs = Raised e s') =
      (\<exists>r. find (\<lambda>r. \<not> continues r) rs = Some r \<and> 400 \<le> status r \<and>
           status r \<noteq> 429 \<and> e = HTTPError (status r))"
    unfolding query_all_raised_iff raise_for_status_def
    using nc by auto
  have b: "(\<exists>s'. query_all key s u p ov rs = Returned s') =
      (\<exists>r. find (\<lambda>r. \<not> continues r) rs = Some r \<and> status r < 400)"
    unfolding query_all_returned_iff raise_for_status_def
    by auto
  have c: "query_all key s u p ov rs = Raised (HTTPError c) s' \<Longrightarrow> c \<noteq> 429 \<and> 400 \<le> c"
  proof -
    assume "query_all key s u p ov rs = Raised (HTTPError c) s'"
    then have "\<exists>s'. query_all key s u p ov rs = Raised (HTTPError c) s'" by blast
    then obtain r where "find (\<lambda>r. \<not> continues r) rs = Some r" "status r \<noteq> 200"
      "raise_for_status (status r)" "HTTPError c = HTTPError (status r)"
      unfolding query_all_raised_iff by blast
    then show ?thesis using nc by (auto simp: raise_for_status_def)
  qed
  have d: "status r = 429 \<Longrightarrow>
      query_all key s u p ov (r # rs) =
        query_all key (receive (send (govern s ov) u (AList.update ''apiKey'' key p) ov) r)
          u (AList.update ''apiKey'' key p) True rs"
    by (simp add: query_all.simps(2) Let_def)
  have d2: "status r = 429 \<Longrightarrow>
      (\<exists>s1 t. query_all key s u p ov [r] = Awaiting s1 \<and>
         events s1 =
           events (send (govern s ov) u (AList.update ''apiKey'' key p) ov) @
           [Sleep t, Request u (AList.update ''apiKey'' key p) True])"
    by (simp add: query_all.simps(2) Let_def events_send events_receive govern_def)
  have f: "query_all key s u p ov rs = Raised e s' \<Longrightarrow>
      fetch (\<lambda>s. query_all key s u p ov rs) clean_data s = Raised e s'"
    by (simp add: fetch_def)
  from c have c1: "query_all key s u p ov rs = Raised (HTTPError c) s' \<longrightarrow> c \<noteq> 429 \<and> 400 \<le> c"
    by blast
  from d d2 have d1: "status r = 429 \<longrightarrow>
      query_all key s u p ov (r # rs) =
        query_all key (receive (send (govern s ov) u (AList.update ''apiKey'' key p) ov) r)
          u (AList.update ''apiKey'' key p) True rs \<and>
      (\<exists>s1 t. query_all key s u p ov [r] = Awaiting s1 \<and>
         events s1 =
           events (send (govern s ov) u (AList.update ''apiKey'' key p) ov) @
           [Sleep t, Request u (AList.update ''apiKey'' key p) True])"
    by blast
  from f have f1: "query_all key s u p ov rs = Raised e s' \<longrightarrow>
      fetch (\<lambda>s. query_all key s u p ov rs) clean_data s = Raised e s'"
    by blast
  show ?thesis
    using a b c1 d1 f1 by (intro conjI) assumption+
qed

theorem query_all_error_statuses_witness:
  "status \<lparr>status = 429, body = \<lparr>request_id = None, next_url = None, page_results = []\<rparr>, clock = 1\<rparr> = 429 \<and>
   find (\<lambda>r. \<not> continues r)
     [\<lparr>status = 503, body = \<lparr>request_id = None, next_url = None, page_results = []\<rparr>, clock = 2\<rparr>] =
     Some \<lparr>status = 503, body = \<lparr>request_id = None, next_url = None, page_results = []\<rparr>, clock = 2\<rparr> \<and>
   (\<exists>s'. query_all (PStr ''k'') init ''u'' [] False
           [\<lparr>status = 503, body = \<lparr>request_id = None, next_url = None, page_results = []\<rparr>, clock = 2\<rparr>] =
           Raised (HTTPError 503) s' \<and>
         fetch (\<lambda>s. query_all (PStr ''k'') s ''u'' [] False
           [\<lparr>status = 503, body = \<lparr>request_id = None, next_url = None, page_results = []\<rparr>, clock = 2\<rparr>])
           StockMetaData_clean_data init = Raised (HTTPError 503) s') \<and>
   (\<exists>s1 t. query_all (PStr ''k'') init ''u'' [] False
           [\<lparr>status = 429, body = \<lparr>request_id = None, next_url = None, page_results = []\<rparr>, clock = 1\<rparr>] =
           Awaiting s1 \<and>
         events s1 = [Request ''u'' [(''apiKey'', PStr ''k'')] False, Sleep t,
                      Request ''u'' [(''apiKey'', PStr ''k'')] True])"
proof -
  let ?r1 = "\<lparr>status = 429, body = \<lparr>request_id = None, next_url = None, page_results = []\<rparr>, clock = (1::rat)\<rparr>"
  let ?r2 = "\<lparr>status = 503, body = \<lparr>request_id = None, next_url = None, page_results = []\<rparr>, clock = (2::rat)\<rparr>"
  have h1: "status ?r1 = 429" by simp
  have h2: "find (\<lambda>r. \<not> continues r) [?r2] = Some ?r2"
    by (simp add: continues_def)
  from query_all_error_statuses
         [where key = "PStr ''k''" and s = init and u = "''u''" and p = "[]" and ov = False
            and rs = "[?r2]" and e = "HTTPError 503"]
  have "(\<exists>s'. query_all (PStr ''k'') init ''u'' [] False [?r2] = Raised (HTTPError 503) s') =
        (\<exists>r. find (\<lambda>r. \<not> continues r) [?r2] = Some r \<and> 400 \<le> status r \<and>
             status r \<noteq> 429 \<and> HTTPError 503 = HTTPError (status r))"
    by (rule conjunct1)
  moreover have "\<exists>r. find (\<lambda>r. \<not> continues r) [?r2] = Some r \<and> 400 \<le> status r \<and>
             status r \<noteq> 429 \<and> HTTPError 503 = HTTPError (status r)"
    by (rule exI [of _ ?r2]) (simp add: continues_def)
  ultimately obtain s' where
    r: "query_all (PStr ''k'') init ''u'' [] False [?r2] = Raised (HTTPError 503) s'"
    by blast
  from query_all_error_statuses
         [where key = "PStr ''k''" and s = init and u = "''u''" and p = "[]" and ov = False
            and rs = "[?r2]" and e = "HTTPError 503" and s' = s'
            and clean_data = StockMetaData_clean_data and r = ?r1] r h1
  have f: "fetch (\<lambda>s. query_all (PStr ''k'') s ''u'' [] False [?r2])
             StockMetaData_clean_data init = Raised (HTTPError 503) s'"
    and w: "\<exists>s1 t. query_all (PStr ''k'') init ''u'' [] False [?r1] = Awaiting s1 \<and>
         events s1 = events (send (govern init False) ''u'' (AList.update ''apiKey'' (PStr ''k'') []) False) @
                      [Sleep t, Request ''u'' (AList.update ''apiKey'' (PStr ''k'') []) True]"
    by blast+
  from w have "\<exists>s1 t. query_all (PStr ''k'') init ''u'' [] False [?r1] = Awaiting s1 \<and>
         events s1 = [Request ''u'' [(''apiKey'', PStr ''k'')] False, Sleep t,
                      Request ''u'' [(''apiKey'', PStr ''k'')] True]"
    by (simp add: send_def govern_def init_def MAX_QUERY_PER_MINUTE_def)
  with h1 h2 r f show ?thesis by blast
qed

text \<open>
  Claim C3 as stated fails: a chain whose only response has status 204, which is neither
  200 nor 429, makes \<^verbatim>\<open>query_all\<close> return normally, with no page collected.
\<close>

theorem query_all_non_error_status_counterexample:
  "status \<lparr>status = 204, body = \<lparr>request_id = None, next_url = None, page_results = []\<rparr>, clock = 1\<rparr> \<noteq> 200 \<and>
   status \<lparr>status = 204, body = \<lparr>request_id = None, next_url = None, page_results = []\<rparr>, clock = 1\<rparr> \<noteq> 429 \<and>
   query_all (PStr ''k'') init ''u'' [] False
     [\<lparr>status = 204, body = \<lparr>request_id = None, next_url = None, page_results = []\<rparr>, clock = 1\<rparr>] =
     Returned \<lparr>query_count = 1, query_time_log = [], results = [], clean_results = [],
               events = [Request ''u'' [(''apiKey'', PStr ''k'')] False]\<rparr>"
  by (simp add: query_all.simps(2) Let_def init_def send_def govern_def receive_def
        raise_for_status_def MAX_QUERY_PER_MINUTE_def)

section \<open>Properties of the batch sequencer\<close>


lemma concat_batches: "0 < b \<Longrightarrow> concat (batches b xs i) = drop i xs"
proof (induction b xs i rule: batches.induct)
  case (1 b xs i)
  show ?case
  proof (cases "i < length xs")
    case True
    with 1 have ih: "concat (batches b xs (i + b)) = drop (i + b) xs" by simp
    have e: "batches b xs i = take b (drop i xs) # batches b xs (i + b)"
      using True 1(2) by (subst batches.simps) simp
    have "drop (i + b) xs = drop b (drop i xs)" by (simp add: add.commute)
    with ih e have "concat (batches b xs i) = take b (drop i xs) @ drop b (drop i xs)"
      by simp
    then show ?thesis by (simp only: append_take_drop_id)
  next
    case False
    then show ?thesis by (subst batches.simps) simp
  qed
qed

lemma length_batches:
  "0 < b \<Longrightarrow> length (batches b xs i) = (length xs - i + b - 1) div b"
proof (induction b xs i rule: batches.induct)
  case (1 b xs i)
  show ?case
  proof (cases "i < length xs")
    case True
    define m where "m = length xs - (i + b) + b - 1"
    from True 1 have ih: "length (batches b xs (i + b)) = m div b"
      by (simp add: m_def)
    have l: "length (batches b xs i) = Suc (m div b)"
      using True 1(2) ih by (subst batches.simps) simp
    show ?thesis
    proof (cases "i + b \<le> length xs")
      case True
      then have h: "length xs - i + b - 1 = m + b"
        using 1(2) by (simp add: m_def)
      have "(m + b) div b = Suc (m div b)"
        using 1(2) by simp
      then have "(length xs - i + b - 1) div b = Suc (m div b)"
        by (simp only: h)
      then show ?thesis by (simp only: l)
    next
      case False
      then have a: "m div b = 0" using 1(2) by (simp add: m_def)
      from False True have "b \<le> length xs - i + b - 1" "length xs - i + b - 1 < 2 * b"
        by simp_all
      then have "(length xs - i + b - 1) div b = 1"
        using 1(2) by (simp add: div_nat_eqI)
      then show ?thesis using l a by simp
    qed
  next
    case False
    then have "length xs - i + b - 1 < b" using 1(2) by simp
    then show ?thesis using False by (subst batches.simps) simp
  qed
qed

lemma nth_batches:
  "0 < b \<Longrightarrow> k < length (batches b xs i) \<Longrightarrow>
   batches b xs i ! k = take b (drop (i + k * b) xs)"
proof (induction b xs i arbitrary: k rule: batches.induct)
  case (1 b xs i)
  from 1(3) have t: "i < length xs"
    by (subst (asm) batches.simps) (simp split: if_splits)
  have e: "batches b xs i = take b (drop i xs) # batches b xs (i + b)"
    using t 1(2) by (subst batches.simps) simp
  show ?case
  proof (cases k)
    case 0
    then show ?thesis using e by simp
  next
    case (Suc j)
    with 1(3) e have "j < length (batches b xs (i + b))" by simp
    with 1(1) t 1(2) have "batches b xs (i + b) ! j = take b (drop (i + b + j * b) xs)"
      by simp
    then show ?thesis using e Suc by (simp add: add.assoc)
  qed
qed

lemma py_round_int_div:
  "0 < n \<Longrightarrow>
   py_round (of_int a / of_int n) =
     (let q = a div n; r = a mod n in
      if 2 * r < n then q else if n < 2 * r then q + 1 else if even q then q else q + 1)"
proof -
  assume n: "0 < n"
  have f: "\<lfloor>(of_int a :: rat) / of_int n\<rfloor> = a div n"
    by (simp add: floor_divide_of_int_eq)
  have "(of_int a :: rat) = of_int (a div n) * of_int n + of_int (a mod n)"
    by (metis of_int_add of_int_mult div_mult_mod_eq)
  then have d: "(of_int a :: rat) / of_int n - of_int (a div n) = of_int (a mod n) / of_int n"
    using n by (simp add: field_simps)
  have l: "(of_int (a mod n) / of_int n < (1::rat) / 2) = (2 * (a mod n) < n)"
  proof -
    have "(of_int (a mod n) / of_int n < (1::rat) / 2) = ((of_int (2 * (a mod n)) :: rat) < of_int n)"
      using n by (simp add: field_simps)
    then show ?thesis by (simp only: of_int_less_iff)
  qed
  have g: "((1::rat) / 2 < of_int (a mod n) / of_int n) = (n < 2 * (a mod n))"
  proof -
    have "((1::rat) / 2 < of_int (a mod n) / of_int n) = ((of_int n :: rat) < of_int (2 * (a mod n)))"
      using n by (simp add: field_simps)
    then show ?thesis by (simp only: of_int_less_iff)
  qed
  show ?thesis
    unfolding py_round_def Let_def f d l g by (rule refl)
qed

lemma py_round_pos: "1 / 2 < x \<Longrightarrow> 0 < py_round x"
proof -
  assume a: "1 / 2 < x"
  then have f: "0 \<le> \<lfloor>x\<rfloor>" by simp
  have g: "\<lfloor>x\<rfloor> \<le> py_round x" by (simp add: py_round_def Let_def)
  show ?thesis
  proof (cases "\<lfloor>x\<rfloor> = 0")
    case True
    then have "x - of_int \<lfloor>x\<rfloor> = x" by simp
    with a True show ?thesis by (simp add: py_round_def Let_def)
  next
    case False
    with f g show ?thesis by linarith
  qed
qed

lemma batch_size_pos:
  "0 < n \<Longrightarrow> n < 120000 \<Longrightarrow> 0 < py_round (60000 / of_int (int n))"
proof -
  assume "0 < n" "n < 120000"
  then have "(1::rat) / 2 < 60000 / of_nat n"
    by (simp add: field_simps)
  then show ?thesis using py_round_pos by simp
qed

lemma length_stock_row: "length (stock_row t) = 9"
  by (simp add: stock_row_def selected_keys_def dict_comp_def)

lemma length_option_row: "length (option_row tid t) = 9"
  by (simp add: option_row_def option_key_mapping_def dict_comp_def)

lemma length_price_row: "price_row to_date tid r = Inr t \<Longrightarrow> length t = 10"
  by (auto simp add: price_row_def price_key_mapping_def dict_comp_def py_index_def
        split: sum.splits)

lemma py_round_9: "py_round (60000 / 9) = 6667"
  using py_round_int_div [of 9 60000] by (simp add: Let_def)


lemma make_clean_generator_batches:
  "clean_results s = r # rest \<Longrightarrow> 0 < length r \<Longrightarrow> length r < 120000 \<Longrightarrow>
   make_clean_generator s =
     Inr (batches (nat (py_round (60000 / of_int (int (length r))))) (clean_results s) 0)"
  using batch_size_pos [of "length r"]
  by (simp add: make_clean_generator_def Let_def)

text \<open>
  Claim C6 does not hold of the code. When the upstream answers with one page that holds
  no record, \<^verbatim>\<open>fetch\<close> returns with an empty \<^verbatim>\<open>clean_results\<close>, and the generator it has
  made raises \<^verbatim>\<open>IndexError\<close> at its first step (line 74 reads \<^verbatim>\<open>self.clean_results[0]\<close>)
  where the claim has it yield no batch and raise nothing.
\<close>

theorem make_clean_generator_empty_raises:
  "fetch (\<lambda>s. query_all (PStr ''k'') s ''u'' [] False
            [\<lparr>status = 200, body = \<lparr>request_id = None, next_url = None, page_results = []\<rparr>, clock = 1\<rparr>])
         StockMetaData_clean_data init =
     Returned \<lparr>query_count = 1,
               query_time_log = [\<lparr>log_request_id = None, query_timestamp = 1\<rparr>],
               results = [\<lparr>request_id = None, next_url = None, page_results = []\<rparr>],
               clean_results = [],
               events = [Request ''u'' [(''apiKey'', PStr ''k'')] False]\<rparr> \<and>
   make_clean_generator
     \<lparr>query_count = 1,
      query_time_log = [\<lparr>log_request_id = None, query_timestamp = 1\<rparr>],
      results = [\<lparr>request_id = None, next_url = None, page_results = []\<rparr>],
      clean_results = [],
      events = [Request ''u'' [(''apiKey'', PStr ''k'')] False]\<rparr> = Inl IndexError"
  by (simp add: fetch_def query_all.simps(2) Let_def init_def send_def govern_def receive_def
        MAX_QUERY_PER_MINUTE_def StockMetaData_clean_data_def make_clean_generator_def)


text \<open>
  Claim C7, as amended. The batch length of \<^verbatim>\<open>make_clean_generator\<close> is
  \<^verbatim>\<open>round(60000 / record_size)\<close>, the quotient rounded to the nearest integer with a tie
  going to the even one, where \<^verbatim>\<open>record_size\<close> is the number of fields of the first
  record. For a first record with at least one and fewer than 120000 fields that length
  is positive, and the generator yields the consecutive slices of that length over
  \<^verbatim>\<open>clean_results\<close>: every batch but the last has exactly that length, the last one is
  not empty and not longer.
\<close>

theorem make_clean_generator_batch_size:
  "clean_results s = r # rest \<Longrightarrow> 0 < length r \<Longrightarrow> length r < 120000 \<Longrightarrow>
   (let n = int (length r); q = 60000 div n; m = 60000 mod n;
        b = nat (if 2 * m < n then q else if n < 2 * m then q + 1
                 else if even q then q else q + 1)
    in 0 < b \<and>
       (\<exists>bs. make_clean_generator s = Inr bs \<and>
             length bs = (length (clean_results s) + b - 1) div b \<and>
             (\<forall>k < length bs. bs ! k = take b (drop (k * b) (clean_results s))) \<and>
             (\<forall>k. Suc k < length bs \<longrightarrow> length (bs ! k) = b) \<and>
             last bs \<noteq> [] \<and> length (last bs) \<le> b))"
proof -
  assume a: "clean_results s = r # rest" and p: "0 < length r" and u: "length r < 120000"
  define n where "n = int (length r)"
  define b where "b = nat (py_round (60000 / of_int n))"
  define xs where "xs = clean_results s"
  define bs where "bs = batches b xs 0"
  from p have n0: "0 < n" by (simp add: n_def)
  have e: "py_round (60000 / of_int n) =
     (let q = 60000 div n; m = 60000 mod n in
      if 2 * m < n then q else if n < 2 * m then q + 1 else if even q then q else q + 1)"
    using py_round_int_div [OF n0, of 60000] by simp
  have b0: "0 < b"
    using batch_size_pos [OF p u] by (simp add: b_def n_def)
  have m: "make_clean_generator s = Inr bs"
    using make_clean_generator_batches [OF a p u] by (simp add: bs_def b_def n_def xs_def)
  have l: "length bs = (length xs + b - 1) div b"
    using length_batches [OF b0, of xs 0] by (simp add: bs_def)
  have nth: "\<forall>k < length bs. bs ! k = take b (drop (k * b) xs)"
    using nth_batches [OF b0, of _ xs 0] by (simp add: bs_def)
  have x0: "0 < length xs" using a by (simp add: xs_def)
  have full: "\<forall>k. Suc k < length bs \<longrightarrow> length (bs ! k) = b"
  proof (intro allI impI)
    fix k assume k: "Suc k < length bs"
    then have "Suc (Suc k) \<le> (length xs + b - 1) div b" using l by simp
    then have "Suc (Suc k) * b \<le> length xs + b - 1"
      using b0 by (simp add: less_eq_div_iff_mult_less_eq)
    then have "b \<le> length xs - k * b" using b0 by simp
    moreover from k nth have "bs ! k = take b (drop (k * b) xs)" by simp
    ultimately show "length (bs ! k) = b" by simp
  qed
  have ne: "bs \<noteq> []"
  proof -
    from x0 b0 have "b \<le> length xs + b - 1" by arith
    then have "1 \<le> (length xs + b - 1) div b"
      using b0 by (simp add: less_eq_div_iff_mult_less_eq)
    with l show ?thesis by auto
  qed
  then have lst: "last bs = take b (drop ((length bs - 1) * b) xs)"
    using nth by (simp add: last_conv_nth)
  have "length bs * b \<le> length xs + b - 1"
    by (simp only: l div_times_less_eq_dividend)
  moreover have "(length bs - 1) * b = length bs * b - b"
    by (simp add: diff_mult_distrib)
  moreover have "b \<le> length bs * b" using ne by (cases bs) simp_all
  ultimately have "(length bs - 1) * b < length xs"
    using b0 x0 by arith
  then have ln: "last bs \<noteq> []" using lst b0 by simp
  have ll: "length (last bs) \<le> b" using lst by simp
  have e': "nat (if 2 * (60000 mod n) < n then 60000 div n
                 else if n < 2 * (60000 mod n) then 60000 div n + 1
                 else if even (60000 div n) then 60000 div n else 60000 div n + 1) = b"
    using e by (simp only: b_def Let_def)
  have "0 < b \<and>
       (\<exists>bs. make_clean_generator s = Inr bs \<and>
             length bs = (length xs + b - 1) div b \<and>
             (\<forall>k < length bs. bs ! k = take b (drop (k * b) xs)) \<and>
             (\<forall>k. Suc k < length bs \<longrightarrow> length (bs ! k) = b) \<and>
             last bs \<noteq> [] \<and> length (last bs) \<le> b)"
    using b0 m l nth full ln ll by blast
  then show ?thesis
    unfolding Let_def n_def [symmetric] e' xs_def [symmetric] .
qed


theorem make_clean_generator_batch_size_witness:
  "clean_results (init\<lparr>clean_results := [stock_row [], stock_row [(''ticker'', PStr ''A'')]]\<rparr>) =
     stock_row [] # [stock_row [(''ticker'', PStr ''A'')]] \<and>
   0 < length (stock_row []) \<and> length (stock_row []) < 120000 \<and>
   (\<exists>bs. make_clean_generator
           (init\<lparr>clean_results := [stock_row [], stock_row [(''ticker'', PStr ''A'')]]\<rparr>) = Inr bs \<and>
         length bs = 1 \<and>
         bs ! 0 = take 6667 [stock_row [], stock_row [(''ticker'', PStr ''A'')]])"
proof -
  let ?s = "init\<lparr>clean_results := [stock_row [], stock_row [(''ticker'', PStr ''A'')]]\<rparr>"
  have h1: "clean_results ?s = stock_row [] # [stock_row [(''ticker'', PStr ''A'')]]" by simp
  have h2: "0 < length (stock_row [])" by (simp add: length_stock_row)
  have h3: "length (stock_row []) < 120000" by (simp add: length_stock_row)
  from make_clean_generator_batch_size [OF h1 h2 h3]
  have "\<exists>bs. make_clean_generator ?s = Inr bs \<and> length bs = 1 \<and>
         (\<forall>k < length bs. bs ! k = take 6667 (drop (k * 6667) [stock_row [], stock_row [(''ticker'', PStr ''A'')]]))"
    by (simp add: Let_def length_stock_row) blast
  then have "\<exists>bs. make_clean_generator ?s = Inr bs \<and> length bs = 1 \<and>
         bs ! 0 = take 6667 [stock_row [], stock_row [(''ticker'', PStr ''A'')]]"
    by fastforce
  with h1 h2 h3 show ?thesis by blast
qed

text \<open>
  Claim C7 as stated fails: the records of ticker metadata have 9 fields, the floor of
  \<open>60000 / 9\<close> is 6666, and 6667 such records are yielded as a single batch of 6667.
\<close>

theorem make_clean_generator_round_counterexample:
  "length (stock_row []) = 9 \<and> (60000::int) div 9 = 6666 \<and>
   make_clean_generator (init\<lparr>clean_results := stock_row [] # replicate 6666 (stock_row [])\<rparr>) =
     Inr [stock_row [] # replicate 6666 (stock_row [])]"
proof -
  have b: "batches 6667 (stock_row [] # replicate 6666 (stock_row [])) 0 =
           [stock_row [] # replicate 6666 (stock_row [])]"
    by (simp add: batches.simps)
  show ?thesis
    using py_round_9
    by (simp add: make_clean_generator_def Let_def length_stock_row b)
qed

section \<open>Properties of the calendar window generator\<close>


lemma str_int_vals:
  "str_int 2024 = ''2024''" "str_int 2023 = ''2023''"
  "str_int 1 = ''1''" "str_int 2 = ''2''" "str_int 3 = ''3''" "str_int 4 = ''4''"
  "str_int 5 = ''5''" "str_int 6 = ''6''" "str_int 7 = ''7''" "str_int 8 = ''8''"
  "str_int 9 = ''9''" "str_int 10 = ''10''" "str_int 11 = ''11''" "str_int 12 = ''12''"
  by (simp_all add: str_int_def str_nat.simps)

lemma year_month_2024_02:
  "year_month_loop 13 2024 2 0 [] =
     [''2024-02'', ''2024-01'', ''2023-12'', ''2023-11'', ''2023-10'', ''2023-09'', ''2023-08'',
      ''2023-07'', ''2023-06'', ''2023-05'', ''2023-04'', ''2023-03'', ''2023-02'', ''2023-01'']"
  by (simp add: year_month_loop.simps str_int_vals Let_def)

lemma length_year_month_loop:
  "length (year_month_loop h y m c acc) = length acc + nat (h + 1 - c)"
proof (induction h y m c acc rule: year_month_loop.induct)
  case (1 h y m c acc)
  show ?case
  proof (cases "c \<le> h")
    case True
    then show ?thesis
      using 1 by (subst year_month_loop.simps) (auto simp: Let_def)
  next
    case False
    then show ?thesis by (subst year_month_loop.simps) simp
  qed
qed

text \<open>
  Claim C8, as amended. With the current date in February 2024 and 13 months of history,
  \<^verbatim>\<open>_determine_base_dates\<close> walks from February 2024, the current month, back to January
  2023: 14 year-months (\<^verbatim>\<open>months_hist + 1\<close>, as for any number of months), each one month
  before the one it follows, the step from January 2024 to December 2023 being the only
  one that lowers the year; the result is what the calendar lookup makes of each of
  them, in that order.
\<close>

theorem determine_base_dates_feb_2024:
  "determine_base_dates cal 13 2024 2 =
     map cal
       [''2024-02'', ''2024-01'', ''2023-12'', ''2023-11'', ''2023-10'', ''2023-09'', ''2023-08'',
        ''2023-07'', ''2023-06'', ''2023-05'', ''2023-04'', ''2023-03'', ''2023-02'', ''2023-01''] \<and>
   length (determine_base_dates cal 13 2024 2) = 14 \<and>
   length (determine_base_dates cal months_hist year month) = nat (months_hist + 1)"
  by (simp add: determine_base_dates_def first_weekday_of_month_def year_month_2024_02
        length_year_month_loop)

text \<open>
  Claim C8 as stated fails: the window has 14 entries, not 13, and it starts with the
  current month, February 2024, not with January 2024.
\<close>

theorem determine_base_dates_feb_2024_counterexample:
  "length (determine_base_dates (\<lambda>ym. ym) 13 2024 2) = 14 \<and>
   hd (determine_base_dates (\<lambda>ym. ym) 13 2024 2) = ''2024-02''"
  by (simp add: determine_base_dates_def first_weekday_of_month_def year_month_2024_02)

section \<open>Properties of the record normalizers\<close>

lemma for_each_append:
  "for_each (xs @ ys) f s =
     (case for_each xs f s of Inl e \<Rightarrow> Inl e | Inr s' \<Rightarrow> for_each ys f s')"
  by (induction xs arbitrary: s) (simp_all split: sum.splits)

lemma for_each_nested:
  "for_each ps (\<lambda>s p. for_each (g p) f s) s = for_each (concat (map g ps)) f s"
  by (induction ps arbitrary: s) (simp_all add: for_each_append split: sum.splits)

lemma for_each_total:
  "(\<And>s x. x \<in> set xs \<Longrightarrow> f s x = Inr (g s x)) \<Longrightarrow> for_each xs f s = Inr (foldl g s xs)"
  by (induction xs arbitrary: s) simp_all

lemma foldl_append_clean:
  "foldl (\<lambda>s x. append_clean s (g x)) s xs = s\<lparr>clean_results := clean_results s @ map g xs\<rparr>"
  by (induction xs arbitrary: s) (simp_all add: append_clean_def)

lemma StockMetaData_clean_data_eq:
  "StockMetaData_clean_data s =
     Inr (s\<lparr>clean_results := clean_results s @ map stock_row (raw_records s)\<rparr>)"
  unfolding StockMetaData_clean_data_def for_each_nested raw_records_def [symmetric]
  by (simp add: for_each_total [where g = "\<lambda>s x. append_clean s (stock_row x)"]
        foldl_append_clean)

lemma raw_records_clean_results [simp]:
  "raw_records (s\<lparr>clean_results := c\<rparr>) = raw_records s"
  by (simp add: raw_records_def)

lemma for_each_collect:
  "for_each xs (\<lambda>s x. case g x of Inl e \<Rightarrow> Inl e | Inr t \<Rightarrow> Inr (append_clean s t)) s = Inr s' \<Longrightarrow>
   \<exists>rows. length rows = length xs \<and>
     (\<forall>t. for_each xs (\<lambda>s x. case g x of Inl e \<Rightarrow> Inl e | Inr t \<Rightarrow> Inr (append_clean s t)) t =
           Inr (t\<lparr>clean_results := clean_results t @ rows\<rparr>))"
proof (induction xs arbitrary: s s')
  case Nil
  then show ?case by simp
next
  case (Cons x xs)
  from Cons.prems obtain r where g: "g x = Inr r"
    by (cases "g x") simp_all
  with Cons.prems have
    "for_each xs (\<lambda>s x. case g x of Inl e \<Rightarrow> Inl e | Inr t \<Rightarrow> Inr (append_clean s t))
       (append_clean s r) = Inr s'"
    by simp
  from Cons.IH [OF this] obtain rows where
    l: "length rows = length xs" and
    a: "\<And>t. for_each xs (\<lambda>s x. case g x of Inl e \<Rightarrow> Inl e | Inr t \<Rightarrow> Inr (append_clean s t)) t =
           Inr (t\<lparr>clean_results := clean_results t @ rows\<rparr>)"
    by blast
  have "length (r # rows) = length (x # xs) \<and>
     (\<forall>t. for_each (x # xs) (\<lambda>s x. case g x of Inl e \<Rightarrow> Inl e | Inr t \<Rightarrow> Inr (append_clean s t)) t =
           Inr (t\<lparr>clean_results := clean_results t @ (r # rows)\<rparr>))"
    using l g by (simp add: a append_clean_def)
  then show ?case by blast
qed

lemma HistoricalStockPrices_clean_data_eq:
  "HistoricalStockPrices_clean_data to_date tid s = Inr s1 \<Longrightarrow>
   \<exists>rows. length rows = length (raw_records s) \<and>
     (\<forall>t. raw_records t = raw_records s \<longrightarrow>
        HistoricalStockPrices_clean_data to_date tid t =
          Inr (t\<lparr>clean_results := clean_results t @ rows\<rparr>))"
  unfolding HistoricalStockPrices_clean_data_def for_each_nested raw_records_def [symmetric]
  by (drule for_each_collect) auto

lemma option_row_ticker:
  "map_of (option_row tid r) ''option_ticker'' = Some (py_get r ''ticker'')"
  by (simp add: option_row_def option_key_mapping_def dict_comp_def update_conv')

lemma natural_key_option_row:
  "natural_key (option_row tid r) = dict_key (py_get r ''ticker'')"
  by (simp add: natural_key_def py_get_def option_row_ticker)

lemma update_fresh:
  "k \<notin> fst ` set al \<Longrightarrow> AList.update k v al = al @ [(k, v)]"
  by (induction al) auto

lemma by_option_ticker_eq:
  "(\<And>v. v \<in> set vs \<Longrightarrow> map_of v ''option_ticker'' \<noteq> None) \<Longrightarrow>
   by_option_ticker vs =
     Inr (map snd (foldl (\<lambda>d v. AList.update (natural_key v) v d) [] vs))"
proof -
  assume a: "\<And>v. v \<in> set vs \<Longrightarrow> map_of v ''option_ticker'' \<noteq> None"
  have "for_each vs
          (\<lambda>d v. case py_index v ''option_ticker'' of
                    Inl e \<Rightarrow> Inl e
                  | Inr k \<Rightarrow> Inr (AList.update (dict_key k) v d)) [] =
        Inr (foldl (\<lambda>d v. AList.update (natural_key v) v d) [] vs)"
  proof (rule for_each_total)
    fix s :: "(pyval \<times> row) list" and x
    assume "x \<in> set vs"
    from a [OF this] show "(case py_index x ''option_ticker'' of
                    Inl e \<Rightarrow> Inl e
                  | Inr k \<Rightarrow> Inr (AList.update (dict_key k) x s)) =
      Inr (AList.update (natural_key x) x s)"
      by (auto simp: py_index_def natural_key_def py_get_def)
  qed
  then show ?thesis by (simp add: by_option_ticker_def)
qed

lemma foldl_update_distinct:
  "distinct (map fst d) \<Longrightarrow>
   distinct (map fst (foldl (\<lambda>d v. AList.update (kf v) v d) d xs))"
  by (induction xs arbitrary: d) (simp_all add: distinct_update)

lemma foldl_update_set:
  "(\<And>k v. (k, v) \<in> set d \<Longrightarrow> P k v) \<Longrightarrow> (\<And>v. v \<in> set xs \<Longrightarrow> P (kf v) v) \<Longrightarrow>
   (k, v) \<in> set (foldl (\<lambda>d v. AList.update (kf v) v d) d xs) \<Longrightarrow> P k v"
proof (induction xs arbitrary: d)
  case Nil
  then show ?case by simp
next
  case (Cons x xs)
  have "\<And>k v. (k, v) \<in> set (AList.update (kf x) x d) \<Longrightarrow> P k v"
  proof -
    fix k v assume "(k, v) \<in> set (AList.update (kf x) x d)"
    then have "(k, v) \<in> set d \<or> (k, v) = (kf x, x)"
      by (induction d) (auto split: if_splits)
    then show "P k v" using Cons.prems(1) Cons.prems(2) [of x] by auto
  qed
  from Cons.IH [OF this] Cons.prems show ?case by simp
qed

lemma foldl_update_map_of:
  "map_of (foldl (\<lambda>d v. AList.update (kf v) v d) d xs) =
   map_of d ++ map_of (rev (map (\<lambda>v. (kf v, v)) xs))"
proof (induction xs arbitrary: d)
  case Nil
  then show ?case by simp
next
  case (Cons x xs)
  have "map_of (AList.update (kf x) x d) ++ map_of (rev (map (\<lambda>v. (kf v, v)) xs)) =
        map_of d ++ (map_of [(kf x, x)] ++ map_of (rev (map (\<lambda>v. (kf v, v)) xs)))"
    by (rule ext) (simp add: update_conv' map_add_def split: option.splits)
  then show ?case by (simp add: Cons.IH)
qed

lemma foldl_update_keys_same:
  "(\<And>v. v \<in> set xs \<Longrightarrow> kf v \<in> fst ` set d) \<Longrightarrow>
   map fst (foldl (\<lambda>d v. AList.update (kf v) v d) d xs) = map fst d"
proof (induction xs arbitrary: d)
  case Nil
  then show ?case by simp
next
  case (Cons x xs)
  have k: "map fst (AList.update (kf x) x d) = map fst d"
    using Cons.prems [of x] by (simp add: update_keys)
  then have "fst ` set (AList.update (kf x) x d) = fst ` set d"
    by (metis set_map)
  with Cons.prems have "\<And>v. v \<in> set xs \<Longrightarrow> kf v \<in> fst ` set (AList.update (kf x) x d)"
    by simp
  from Cons.IH [OF this] k show ?case by simp
qed

lemma foldl_update_keys:
  "fst ` set (foldl (\<lambda>d v. AList.update (kf v) v d) d xs) = fst ` set d \<union> kf ` set xs"
  by (induction xs arbitrary: d) (auto simp: dom_update)

lemma alist_eqI:
  "distinct (map fst a) \<Longrightarrow> map fst a = map fst b \<Longrightarrow> map_of a = map_of b \<Longrightarrow> a = b"
proof (induction a arbitrary: b)
  case Nil
  then show ?case by simp
next
  case (Cons p a)
  from Cons.prems(2) obtain q b' where b: "b = q # b'" and f: "fst p = fst q"
    and m: "map fst a = map fst b'"
    by (cases b) auto
  from fun_cong [OF Cons.prems(3), of "fst p"]
  have "map_of (p # a) (fst p) = map_of b (fst p)" .
  with b f have s: "snd p = snd q" by simp
  with f have pq: "p = q" by (simp add: prod_eq_iff)
  have "map_of a = map_of b'"
  proof (rule ext)
    fix k
    show "map_of a k = map_of b' k"
    proof (cases "k = fst p")
      case True
      with Cons.prems(1) have "k \<notin> fst ` set a" by auto
      moreover from this m have "k \<notin> fst ` set b'" by (metis set_map)
      ultimately have "map_of a k = None" "map_of b' k = None"
        by (simp_all add: map_of_eq_None_iff)
      then show ?thesis by simp
    next
      case False
      from fun_cong [OF Cons.prems(3), of k]
      have "map_of (p # a) k = map_of (q # b') k" by (simp only: b)
      with False pq show ?thesis by (cases p) simp
    qed
  qed
  with Cons.IH [of b'] Cons.prems(1) m have "a = b'" by simp
  with pq b show ?case by simp
qed

lemma refold:
  "distinct (map fst d) \<Longrightarrow> (\<And>k v. (k, v) \<in> set d \<Longrightarrow> k = kf v) \<Longrightarrow>
   fst ` set e \<inter> fst ` set d = {} \<Longrightarrow>
   foldl (\<lambda>d v. AList.update (kf v) v d) e (map snd d) = e @ d"
proof (induction d arbitrary: e)
  case Nil
  then show ?case by simp
next
  case (Cons p d)
  obtain k v where p: "p = (k, v)" by (cases p)
  with Cons.prems(2) have kv: "k = kf v" by simp
  from Cons.prems(3) p have "k \<notin> fst ` set e" by auto
  then have u: "AList.update (kf v) v e = e @ [(k, v)]"
    using kv by (simp add: update_fresh)
  have d: "distinct (map fst d)" using Cons.prems(1) by simp
  have c: "\<And>k v. (k, v) \<in> set d \<Longrightarrow> k = kf v" using Cons.prems(2) by simp
  have "fst ` set (e @ [(k, v)]) \<inter> fst ` set d = {}"
    using Cons.prems(1) Cons.prems(3) p by auto
  from Cons.IH [OF d c this] show ?case using p u by simp
qed

lemma map_of_rev_last:
  "k \<in> kf ` set xs \<Longrightarrow>
   map_of (rev (map (\<lambda>v. (kf v, v)) xs)) k = Some (last (filter (\<lambda>v. kf v = k) xs))"
proof (induction xs rule: rev_induct)
  case Nil
  then show ?case by simp
next
  case (snoc x xs)
  show ?case
  proof (cases "kf x = k")
    case True
    then show ?thesis by simp
  next
    case False
    with snoc.prems have "k \<in> kf ` set xs" by auto
    from snoc.IH [OF this] False show ?thesis by simp
  qed
qed

lemma filter_key_distinct:
  "distinct (map fst d) \<Longrightarrow> map_of d k = Some v \<Longrightarrow> filter (\<lambda>p. fst p = k) d = [(k, v)]"
proof (induction d)
  case Nil
  then show ?case by simp
next
  case (Cons p d)
  show ?case
  proof (cases "fst p = k")
    case True
    with Cons.prems have "p = (k, v)" by (cases p) simp
    moreover from True Cons.prems(1) have n: "k \<notin> fst ` set d" by simp
    then have "filter (\<lambda>p. fst p = k) d = []"
      unfolding filter_empty_conv by (metis image_eqI)
    ultimately show ?thesis by simp
  next
    case False
    with Cons show ?thesis by (cases p) auto
  qed
qed

lemma update_set_cases:
  "(k, v) \<in> set (AList.update k' v' d) \<Longrightarrow> (k, v) \<in> set d \<or> (k, v) = (k', v')"
  by (induction d) (auto split: if_splits)

lemma options_loop:
  "distinct (map fst d0) \<Longrightarrow>
   (\<And>k v. (k, v) \<in> set d0 \<Longrightarrow> k = natural_key v \<and> map_of v ''option_ticker'' \<noteq> None) \<Longrightarrow>
   clean_results s = map snd d0 \<Longrightarrow>
   for_each R
     (\<lambda>s record.
        (let s1 = append_clean s (option_row tid record) in
         case by_option_ticker (clean_results s1) of
           Inl e \<Rightarrow> Inl e
         | Inr vs \<Rightarrow> Inr (s1\<lparr>clean_results := vs\<rparr>))) s =
   Inr (s\<lparr>clean_results :=
            map snd (foldl (\<lambda>d v. AList.update (natural_key v) v d) d0
                       (map (option_row tid) R))\<rparr>)"
proof (induction R arbitrary: s d0)
  case Nil
  then show ?case by simp
next
  case (Cons r R)
  let ?t = "option_row tid r"
  let ?d1 = "AList.update (natural_key ?t) ?t d0"
  have keys: "\<And>v. v \<in> set (map snd d0 @ [?t]) \<Longrightarrow> map_of v ''option_ticker'' \<noteq> None"
    using Cons.prems(2) by (auto simp: option_row_ticker)
  have re: "foldl (\<lambda>d v. AList.update (natural_key v) v d) [] (map snd d0) = d0"
    using refold [of d0 natural_key "[]"] Cons.prems(1) Cons.prems(2) by simp
  have "by_option_ticker (map snd d0 @ [?t]) =
          Inr (map snd (foldl (\<lambda>d v. AList.update (natural_key v) v d) []
                          (map snd d0 @ [?t])))"
    by (rule by_option_ticker_eq) (rule keys)
  then have b: "by_option_ticker (map snd d0 @ [?t]) = Inr (map snd ?d1)"
    by (simp add: re)
  have step: "(let s1 = append_clean s ?t in
         case by_option_ticker (clean_results s1) of
           Inl e \<Rightarrow> Inl e
         | Inr vs \<Rightarrow> Inr (s1\<lparr>clean_results := vs\<rparr>)) =
        Inr (s\<lparr>clean_results := map snd ?d1\<rparr>)"
    by (simp add: Let_def append_clean_def Cons.prems(3) b)
  have d: "distinct (map fst ?d1)" using Cons.prems(1) by (simp add: distinct_update)
  have c: "\<And>k v. (k, v) \<in> set ?d1 \<Longrightarrow> k = natural_key v \<and> map_of v ''option_ticker'' \<noteq> None"
  proof -
    fix k v assume "(k, v) \<in> set ?d1"
    from update_set_cases [OF this] show "k = natural_key v \<and> map_of v ''option_ticker'' \<noteq> None"
      using Cons.prems(2) by (auto simp: option_row_ticker)
  qed
  have cr: "clean_results (s\<lparr>clean_results := map snd ?d1\<rparr>) = map snd ?d1" by simp
  from Cons.IH [OF d c cr] show ?case
    by (simp add: step)
qed

lemma OptionsContracts_clean_data_eq:
  "distinct (map fst d0) \<Longrightarrow>
   (\<And>k v. (k, v) \<in> set d0 \<Longrightarrow> k = natural_key v \<and> map_of v ''option_ticker'' \<noteq> None) \<Longrightarrow>
   clean_results s = map snd d0 \<Longrightarrow>
   OptionsContracts_clean_data tid s =
     Inr (s\<lparr>clean_results :=
              map snd (foldl (\<lambda>d v. AList.update (natural_key v) v d) d0
                         (map (option_row tid) (raw_records s)))\<rparr>)"
  unfolding OptionsContracts_clean_data_def for_each_nested raw_records_def [symmetric]
  by (rule options_loop)

lemma OptionsContracts_clean_data_fresh:
  "clean_results s = [] \<Longrightarrow>
   OptionsContracts_clean_data tid s =
     Inr (s\<lparr>clean_results :=
              map snd (foldl (\<lambda>d v. AList.update (natural_key v) v d) []
                         (map (option_row tid) (raw_records s)))\<rparr>)"
  using OptionsContracts_clean_data_eq [of "[]" s tid] by simp

lemma dedup_consistent:
  "(k, v) \<in> set (foldl (\<lambda>d v. AList.update (natural_key v) v d) []
                   (map (option_row tid) R)) \<Longrightarrow>
   k = natural_key v \<and> map_of v ''option_ticker'' \<noteq> None \<and> v \<in> option_row tid ` set R"
  by (erule foldl_update_set [rotated 2]) (auto simp: option_row_ticker)

lemma refold_same:
  "foldl (\<lambda>d v. AList.update (kf v) v d) (foldl (\<lambda>d v. AList.update (kf v) v d) [] xs) xs =
   foldl (\<lambda>d v. AList.update (kf v) v d) [] xs"
proof -
  let ?D = "foldl (\<lambda>d v. AList.update (kf v) v d) [] xs"
  have k: "\<And>v. v \<in> set xs \<Longrightarrow> kf v \<in> fst ` set ?D"
    by (simp add: foldl_update_keys)
  have d: "distinct (map fst (foldl (\<lambda>d v. AList.update (kf v) v d) ?D xs))"
    by (intro foldl_update_distinct) simp
  have f: "map fst (foldl (\<lambda>d v. AList.update (kf v) v d) ?D xs) = map fst ?D"
    using k by (rule foldl_update_keys_same)
  have m: "map_of (foldl (\<lambda>d v. AList.update (kf v) v d) ?D xs) = map_of ?D"
    by (rule ext) (simp add: foldl_update_map_of map_add_def split: option.splits)
  from alist_eqI [OF d f m] show ?thesis .
qed

lemma OptionsContracts_rerun_fixed:
  "clean_results s = [] \<Longrightarrow>
   \<exists>s1. OptionsContracts_clean_data tid s = Inr s1 \<and>
        OptionsContracts_clean_data tid s1 = Inr s1"
proof -
  assume a: "clean_results s = []"
  let ?X = "map (option_row tid) (raw_records s)"
  let ?D = "foldl (\<lambda>d v. AList.update (natural_key v) v d) [] ?X"
  let ?s1 = "s\<lparr>clean_results := map snd ?D\<rparr>"
  have one: "OptionsContracts_clean_data tid s = Inr ?s1"
    using a by (rule OptionsContracts_clean_data_fresh)
  have d: "distinct (map fst ?D)" by (intro foldl_update_distinct) simp
  have c: "\<And>k v. (k, v) \<in> set ?D \<Longrightarrow> k = natural_key v \<and> map_of v ''option_ticker'' \<noteq> None"
    using dedup_consistent by blast
  have cr: "clean_results ?s1 = map snd ?D" by simp
  have "OptionsContracts_clean_data tid ?s1 =
          Inr (?s1\<lparr>clean_results :=
              map snd (foldl (\<lambda>d v. AList.update (natural_key v) v d) ?D
                         (map (option_row tid) (raw_records ?s1)))\<rparr>)"
    using d c cr by (rule OptionsContracts_clean_data_eq)
  then have "OptionsContracts_clean_data tid ?s1 = Inr ?s1"
    by (simp add: refold_same)
  with one show ?thesis by blast
qed

lemma dedup_filter_key:
  "r \<in> set R \<Longrightarrow>
   filter (\<lambda>v. natural_key v = dict_key (py_get r ''ticker''))
     (map snd (foldl (\<lambda>d v. AList.update (natural_key v) v d) [] (map (option_row tid) R))) =
   [option_row tid
      (last (filter (\<lambda>x. dict_key (py_get x ''ticker'') = dict_key (py_get r ''ticker'')) R))]"
proof -
  assume r: "r \<in> set R"
  let ?k = "dict_key (py_get r ''ticker'')"
  let ?X = "map (option_row tid) R"
  let ?D = "foldl (\<lambda>d v. AList.update (natural_key v) v d) [] ?X"
  have d: "distinct (map fst ?D)" by (intro foldl_update_distinct) simp
  have kin: "?k \<in> natural_key ` set ?X"
    using r by (force simp: natural_key_option_row)
  have m: "map_of ?D ?k = Some (last (filter (\<lambda>v. natural_key v = ?k) ?X))"
    by (simp only: foldl_update_map_of map_of_rev_last [OF kin] map_of.simps(1) empty_map_add)
  have ne: "filter (\<lambda>x. dict_key (py_get x ''ticker'') = ?k) R \<noteq> []"
    using r by (auto simp: filter_empty_conv)
  have l: "last (filter (\<lambda>v. natural_key v = ?k) ?X) =
           option_row tid (last (filter (\<lambda>x. dict_key (py_get x ''ticker'') = ?k) R))"
    using ne by (simp add: filter_map o_def natural_key_option_row last_map)
  have "filter (\<lambda>v. natural_key v = ?k) (map snd ?D) =
        map snd (filter (\<lambda>p. natural_key (snd p) = ?k) ?D)"
    by (simp add: filter_map o_def)
  also have "filter (\<lambda>p. natural_key (snd p) = ?k) ?D = filter (\<lambda>p. fst p = ?k) ?D"
    by (rule filter_cong) (use dedup_consistent in force)+
  also have "\<dots> = [(?k, last (filter (\<lambda>v. natural_key v = ?k) ?X))]"
    using d m by (rule filter_key_distinct)
  finally show ?thesis by (simp add: l)
qed

lemma option_row_eq:
  "option_row tid x =
     [(''option_ticker'', py_get x ''ticker''),
      (''expiration_date'', py_get x ''expiration_date''),
      (''strike_price'', py_get x ''strike_price''),
      (''contract_type'', py_get x ''contract_type''),
      (''shares_per_contract'', py_get x ''shares_per_contract''),
      (''primary_exchange'', py_get x ''primary_exchange''),
      (''exercise_style'', py_get x ''exercise_style''),
      (''cfi'', py_get x ''cfi''),
      (''underlying_ticker_id'', PInt tid)]"
  by (simp add: option_row_def option_key_mapping_def dict_comp_def)

text \<open>
  Claim C4. After \<^verbatim>\<open>OptionsContracts.clean_data\<close> has run over the raw pages of all
  partitions (on the fresh \<^verbatim>\<open>clean_results\<close> of \<^verbatim>\<open>__init__\<close>), for every raw record of
  those pages \<^verbatim>\<open>clean_results\<close> holds exactly one record with that record's option
  ticker as its key. Its fields are those of the last raw record with that ticker:
  \<^verbatim>\<open>option_ticker\<close> is that record's \<^verbatim>\<open>ticker\<close>, the seven other mapped fields are that
  record's fields of the same name (\<^verbatim>\<open>None\<close> where it has none), and
  \<^verbatim>\<open>underlying_ticker_id\<close> is the ticker id of the instance. \<^verbatim>\<open>clean_results\<close> holds
  nothing but records built this way from raw records.
\<close>

theorem OptionsContracts_clean_data_dedup:
  "clean_results s = [] \<Longrightarrow> r \<in> set (raw_records s) \<Longrightarrow>
   \<exists>s' l. OptionsContracts_clean_data ticker_id s = Inr s' \<and>
        l = last (filter (\<lambda>x. dict_key (py_get x ''ticker'') = dict_key (py_get r ''ticker''))
                    (raw_records s)) \<and>
        dict_key (py_get l ''ticker'') = dict_key (py_get r ''ticker'') \<and>
        filter (\<lambda>v. natural_key v = dict_key (py_get r ''ticker'')) (clean_results s') =
          [[(''option_ticker'', py_get l ''ticker''),
            (''expiration_date'', py_get l ''expiration_date''),
            (''strike_price'', py_get l ''strike_price''),
            (''contract_type'', py_get l ''contract_type''),
            (''shares_per_contract'', py_get l ''shares_per_contract''),
            (''primary_exchange'', py_get l ''primary_exchange''),
            (''exercise_style'', py_get l ''exercise_style''),
            (''cfi'', py_get l ''cfi''),
            (''underlying_ticker_id'', PInt ticker_id)]] \<and>
        filter (\<lambda>v. natural_key v = dict_key (py_get r ''ticker'')) (clean_results s') =
          [option_row ticker_id l] \<and>
        set (clean_results s') \<subseteq> option_row ticker_id ` set (raw_records s) \<and>
        natural_key (option_row ticker_id r) = dict_key (py_get r ''ticker'')"
proof -
  assume a: "clean_results s = []" and r: "r \<in> set (raw_records s)"
  let ?D = "foldl (\<lambda>d v. AList.update (natural_key v) v d) []
              (map (option_row ticker_id) (raw_records s))"
  let ?l = "last (filter (\<lambda>x. dict_key (py_get x ''ticker'') = dict_key (py_get r ''ticker''))
                    (raw_records s))"
  have one: "OptionsContracts_clean_data ticker_id s = Inr (s\<lparr>clean_results := map snd ?D\<rparr>)"
    using a by (rule OptionsContracts_clean_data_fresh)
  have sub: "set (map snd ?D) \<subseteq> option_row ticker_id ` set (raw_records s)"
    using dedup_consistent by fastforce
  have ne: "filter (\<lambda>x. dict_key (py_get x ''ticker'') = dict_key (py_get r ''ticker''))
              (raw_records s) \<noteq> []"
    using r by (auto simp: filter_empty_conv)
  from last_in_set [OF ne]
  have lk: "dict_key (py_get ?l ''ticker'') = dict_key (py_get r ''ticker'')" by simp
  have f: "filter (\<lambda>v. natural_key v = dict_key (py_get r ''ticker''))
             (clean_results (s\<lparr>clean_results := map snd ?D\<rparr>)) = [option_row ticker_id ?l]"
    using dedup_filter_key [OF r, of ticker_id] by simp
  have g: "filter (\<lambda>v. natural_key v = dict_key (py_get r ''ticker''))
             (clean_results (s\<lparr>clean_results := map snd ?D\<rparr>)) =
          [[(''option_ticker'', py_get ?l ''ticker''),
            (''expiration_date'', py_get ?l ''expiration_date''),
            (''strike_price'', py_get ?l ''strike_price''),
            (''contract_type'', py_get ?l ''contract_type''),
            (''shares_per_contract'', py_get ?l ''shares_per_contract''),
            (''primary_exchange'', py_get ?l ''primary_exchange''),
            (''exercise_style'', py_get ?l ''exercise_style''),
            (''cfi'', py_get ?l ''cfi''),
            (''underlying_ticker_id'', PInt ticker_id)]]"
    by (simp only: f option_row_eq [of ticker_id ?l])
  have s: "set (clean_results (s\<lparr>clean_results := map snd ?D\<rparr>)) \<subseteq>
             option_row ticker_id ` set (raw_records s)"
    using sub by simp
  have n: "natural_key (option_row ticker_id r) = dict_key (py_get r ''ticker'')"
    by (rule natural_key_option_row)
  from one lk g f s n show ?thesis by blast
qed

theorem OptionsContracts_clean_data_dedup_witness:
  "clean_results (init\<lparr>results :=
      [\<lparr>request_id = None, next_url = None,
        page_results = [[(''ticker'', PStr ''A''), (''cfi'', PStr ''x'')],
                        [(''ticker'', PStr ''B''), (''cfi'', PStr ''y'')]]\<rparr>,
       \<lparr>request_id = None, next_url = None,
        page_results = [[(''ticker'', PStr ''A''), (''cfi'', PStr ''z''),
                         (''strike_price'', PInt 150)]]\<rparr>]\<rparr>) = [] \<and>
   [(''ticker'', PStr ''A''), (''cfi'', PStr ''x'')] \<in> set (raw_records (init\<lparr>results :=
      [\<lparr>request_id = None, next_url = None,
        page_results = [[(''ticker'', PStr ''A''), (''cfi'', PStr ''x'')],
                        [(''ticker'', PStr ''B''), (''cfi'', PStr ''y'')]]\<rparr>,
       \<lparr>request_id = None, next_url = None,
        page_results = [[(''ticker'', PStr ''A''), (''cfi'', PStr ''z''),
                         (''strike_price'', PInt 150)]]\<rparr>]\<rparr>)) \<and>
   (\<exists>s'. OptionsContracts_clean_data 7 (init\<lparr>results :=
      [\<lparr>request_id = None, next_url = None,
        page_results = [[(''ticker'', PStr ''A''), (''cfi'', PStr ''x'')],
                        [(''ticker'', PStr ''B''), (''cfi'', PStr ''y'')]]\<rparr>,
       \<lparr>request_id = None, next_url = None,
        page_results = [[(''ticker'', PStr ''A''), (''cfi'', PStr ''z''),
                         (''strike_price'', PInt 150)]]\<rparr>]\<rparr>) = Inr s' \<and>
      filter (\<lambda>v. natural_key v = PStr ''A'') (clean_results s') =
        [[(''option_ticker'', PStr ''A''),
          (''expiration_date'', PNone),
          (''strike_price'', PInt 150),
          (''contract_type'', PNone),
          (''shares_per_contract'', PNone),
          (''primary_exchange'', PNone),
          (''exercise_style'', PNone),
          (''cfi'', PStr ''z''),
          (''underlying_ticker_id'', PInt 7)]])"
proof -
  let ?s = "init\<lparr>results :=
      [\<lparr>request_id = None, next_url = None,
        page_results = [[(''ticker'', PStr ''A''), (''cfi'', PStr ''x'')],
                        [(''ticker'', PStr ''B''), (''cfi'', PStr ''y'')]]\<rparr>,
       \<lparr>request_id = None, next_url = None,
        page_results = [[(''ticker'', PStr ''A''), (''cfi'', PStr ''z''),
                         (''strike_price'', PInt 150)]]\<rparr>]\<rparr>"
  have h1: "clean_results ?s = []" by (simp add: init_def)
  have h2: "[(''ticker'', PStr ''A''), (''cfi'', PStr ''x'')] \<in> set (raw_records ?s)"
    by (simp add: raw_records_def)
  from OptionsContracts_clean_data_dedup [OF h1 h2, of 7]
  obtain s' l where
    a: "OptionsContracts_clean_data 7 ?s = Inr s'" and
    l: "l = last (filter (\<lambda>x. dict_key (py_get x ''ticker'') =
                   dict_key (py_get [(''ticker'', PStr ''A''), (''cfi'', PStr ''x'')] ''ticker''))
                    (raw_records ?s))" and
    f: "filter (\<lambda>v. natural_key v =
                  dict_key (py_get [(''ticker'', PStr ''A''), (''cfi'', PStr ''x'')] ''ticker''))
          (clean_results s') =
          [[(''option_ticker'', py_get l ''ticker''),
            (''expiration_date'', py_get l ''expiration_date''),
            (''strike_price'', py_get l ''strike_price''),
            (''contract_type'', py_get l ''contract_type''),
            (''shares_per_contract'', py_get l ''shares_per_contract''),
            (''primary_exchange'', py_get l ''primary_exchange''),
            (''exercise_style'', py_get l ''exercise_style''),
            (''cfi'', py_get l ''cfi''),
            (''underlying_ticker_id'', PInt 7)]]"
    by blast
  from l have l': "l = [(''ticker'', PStr ''A''), (''cfi'', PStr ''z''), (''strike_price'', PInt 150)]"
    by (simp add: raw_records_def py_get_def dict_key_def)
  from f have "filter (\<lambda>v. natural_key v = PStr ''A'') (clean_results s') =
        [[(''option_ticker'', PStr ''A''),
          (''expiration_date'', PNone),
          (''strike_price'', PInt 150),
          (''contract_type'', PNone),
          (''shares_per_contract'', PNone),
          (''primary_exchange'', PNone),
          (''exercise_style'', PNone),
          (''cfi'', PStr ''z''),
          (''underlying_ticker_id'', PInt 7)]]"
    unfolding l' by (simp add: py_get_def dict_key_def)
  with a h1 h2 show ?thesis by blast
qed

text \<open>
  Claim C9, as amended. \<^verbatim>\<open>OptionsContracts.clean_data\<close>, run a second time on the state
  its first run has left, leaves that state as it is. \<^verbatim>\<open>StockMetaData.clean_data\<close> and
  \<^verbatim>\<open>HistoricalStockPrices.clean_data\<close> append the normalized records of the raw pages at
  every run: after the second run \<^verbatim>\<open>clean_results\<close> is its value after the first run
  followed by the same records once more.
\<close>

theorem clean_data_twice:
  "(\<exists>s1 s2. StockMetaData_clean_data s = Inr s1 \<and>
            clean_results s1 = clean_results s @ map stock_row (raw_records s) \<and>
            StockMetaData_clean_data s1 = Inr s2 \<and>
            clean_results s2 = clean_results s1 @ map stock_row (raw_records s)) \<and>
   (HistoricalStockPrices_clean_data to_date ticker_id s = Inr pa \<longrightarrow>
      (\<exists>rows pb. length rows = length (raw_records s) \<and>
            clean_results pa = clean_results s @ rows \<and>
            HistoricalStockPrices_clean_data to_date ticker_id pa = Inr pb \<and>
            clean_results pb = clean_results pa @ rows)) \<and>
   (clean_results s = [] \<longrightarrow>
      (\<exists>oa. OptionsContracts_clean_data ticker_id s = Inr oa \<and>
            OptionsContracts_clean_data ticker_id oa = Inr oa))"
proof -
  have st: "\<exists>s1 s2. StockMetaData_clean_data s = Inr s1 \<and>
            clean_results s1 = clean_results s @ map stock_row (raw_records s) \<and>
            StockMetaData_clean_data s1 = Inr s2 \<and>
            clean_results s2 = clean_results s1 @ map stock_row (raw_records s)"
    by (simp add: StockMetaData_clean_data_eq)
  have pr: "HistoricalStockPrices_clean_data to_date ticker_id s = Inr pa \<longrightarrow>
      (\<exists>rows pb. length rows = length (raw_records s) \<and>
            clean_results pa = clean_results s @ rows \<and>
            HistoricalStockPrices_clean_data to_date ticker_id pa = Inr pb \<and>
            clean_results pb = clean_results pa @ rows)"
  proof
    assume a: "HistoricalStockPrices_clean_data to_date ticker_id s = Inr pa"
    from HistoricalStockPrices_clean_data_eq [OF a] obtain rows where
      l: "length rows = length (raw_records s)" and
      e: "\<And>t. raw_records t = raw_records s \<Longrightarrow>
            HistoricalStockPrices_clean_data to_date ticker_id t =
              Inr (t\<lparr>clean_results := clean_results t @ rows\<rparr>)"
      by blast
    from e [of s] a have pa: "pa = s\<lparr>clean_results := clean_results s @ rows\<rparr>" by simp
    then have "raw_records pa = raw_records s" by simp
    from e [OF this] have
      "HistoricalStockPrices_clean_data to_date ticker_id pa =
         Inr (pa\<lparr>clean_results := clean_results pa @ rows\<rparr>)" .
    with l pa show "\<exists>rows pb. length rows = length (raw_records s) \<and>
            clean_results pa = clean_results s @ rows \<and>
            HistoricalStockPrices_clean_data to_date ticker_id pa = Inr pb \<and>
            clean_results pb = clean_results pa @ rows"
      by (intro exI [of _ rows] exI [of _ "pa\<lparr>clean_results := clean_results pa @ rows\<rparr>"]) simp
  qed
  have op: "clean_results s = [] \<longrightarrow>
      (\<exists>oa. OptionsContracts_clean_data ticker_id s = Inr oa \<and>
            OptionsContracts_clean_data ticker_id oa = Inr oa)"
    using OptionsContracts_rerun_fixed by blast
  from st pr op show ?thesis by (intro conjI)
qed

theorem clean_data_twice_witness:
  "HistoricalStockPrices_clean_data (\<lambda>v. Inr v) 7
     (init\<lparr>results := [\<lparr>request_id = None, next_url = None,
                          page_results = [[(''t'', PInt 1000), (''c'', PInt 5)]]\<rparr>]\<rparr>) =
     Inr (init\<lparr>results := [\<lparr>request_id = None, next_url = None,
                              page_results = [[(''t'', PInt 1000), (''c'', PInt 5)]]\<rparr>],
               clean_results :=
                 [[(''volume'', PNone), (''volume_weight_price'', PNone), (''close_price'', PInt 5),
                   (''open_price'', PNone), (''high_price'', PNone), (''low_price'', PNone),
                   (''as_of_date'', PInt 1000), (''number_of_transactions'', PNone),
                   (''otc'', PNone), (''ticker_id'', PInt 7)]]\<rparr>) \<and>
   clean_results (init\<lparr>results := [\<lparr>request_id = None, next_url = None,
                          page_results = [[(''t'', PInt 1000), (''c'', PInt 5)]]\<rparr>]\<rparr>) = [] \<and>
   (\<exists>p2. HistoricalStockPrices_clean_data (\<lambda>v. Inr v) 7
            (init\<lparr>results := [\<lparr>request_id = None, next_url = None,
                              page_results = [[(''t'', PInt 1000), (''c'', PInt 5)]]\<rparr>],
               clean_results :=
                 [[(''volume'', PNone), (''volume_weight_price'', PNone), (''close_price'', PInt 5),
                   (''open_price'', PNone), (''high_price'', PNone), (''low_price'', PNone),
                   (''as_of_date'', PInt 1000), (''number_of_transactions'', PNone),
                   (''otc'', PNone), (''ticker_id'', PInt 7)]]\<rparr>) = Inr p2 \<and>
          length (clean_results p2) = 2) \<and>
   (\<exists>o1. OptionsContracts_clean_data 7
            (init\<lparr>results := [\<lparr>request_id = None, next_url = None,
                          page_results = [[(''t'', PInt 1000), (''c'', PInt 5)]]\<rparr>]\<rparr>) = Inr o1 \<and>
          OptionsContracts_clean_data 7 o1 = Inr o1)"
proof -
  let ?s = "init\<lparr>results := [\<lparr>request_id = None, next_url = None,
                          page_results = [[(''t'', PInt 1000), (''c'', PInt 5)]]\<rparr>]\<rparr>"
  let ?row = "[(''volume'', PNone), (''volume_weight_price'', PNone), (''close_price'', PInt 5),
                   (''open_price'', PNone), (''high_price'', PNone), (''low_price'', PNone),
                   (''as_of_date'', PInt 1000), (''number_of_transactions'', PNone),
                   (''otc'', PNone), (''ticker_id'', PInt 7)]"
  let ?p1 = "init\<lparr>results := [\<lparr>request_id = None, next_url = None,
                              page_results = [[(''t'', PInt 1000), (''c'', PInt 5)]]\<rparr>],
               clean_results := [?row]\<rparr>"
  have r: "price_row (\<lambda>v. Inr v) 7 [(''t'', PInt 1000), (''c'', PInt 5)] = Inr ?row"
    by (simp add: price_row_def price_key_mapping_def dict_comp_def py_get_def py_index_def)
  have h1: "HistoricalStockPrices_clean_data (\<lambda>v. Inr v) 7 ?s = Inr ?p1"
    by (simp add: HistoricalStockPrices_clean_data_def init_def r append_clean_def)
  have h2: "clean_results ?s = []" by (simp add: init_def)
  note t = clean_data_twice [where s = ?s and to_date = "\<lambda>v. Inr v" and ticker_id = 7 and pa = ?p1]
  from t h1 obtain rows p2 where
    "length rows = length (raw_records ?s)" "clean_results ?p1 = clean_results ?s @ rows"
    "HistoricalStockPrices_clean_data (\<lambda>v. Inr v) 7 ?p1 = Inr p2"
    "clean_results p2 = clean_results ?p1 @ rows"
    by blast
  then have a: "\<exists>p2. HistoricalStockPrices_clean_data (\<lambda>v. Inr v) 7 ?p1 = Inr p2 \<and>
          length (clean_results p2) = 2"
    by (auto simp: raw_records_def init_def)
  from t h2 have b: "\<exists>o1. OptionsContracts_clean_data 7 ?s = Inr o1 \<and>
          OptionsContracts_clean_data 7 o1 = Inr o1"
    by blast
  from h1 h2 a b show ?thesis by (intro conjI)
qed

text \<open>
  Claim C9 as stated fails for ticker metadata: with one raw page that holds one record,
  the first run of \<^verbatim>\<open>clean_data\<close> leaves one clean record and the second run two.
\<close>

theorem clean_data_twice_counterexample:
  "StockMetaData_clean_data
     (init\<lparr>results := [\<lparr>request_id = None, next_url = None,
                          page_results = [[(''ticker'', PStr ''A'')]]\<rparr>]\<rparr>) =
     Inr (init\<lparr>results := [\<lparr>request_id = None, next_url = None,
                              page_results = [[(''ticker'', PStr ''A'')]]\<rparr>],
               clean_results := [stock_row [(''ticker'', PStr ''A'')]]\<rparr>) \<and>
   StockMetaData_clean_data
     (init\<lparr>results := [\<lparr>request_id = None, next_url = None,
                          page_results = [[(''ticker'', PStr ''A'')]]\<rparr>],
           clean_results := [stock_row [(''ticker'', PStr ''A'')]]\<rparr>) =
     Inr (init\<lparr>results := [\<lparr>request_id = None, next_url = None,
                              page_results = [[(''ticker'', PStr ''A'')]]\<rparr>],
               clean_results := [stock_row [(''ticker'', PStr ''A'')],
                                 stock_row [(''ticker'', PStr ''A'')]]\<rparr>) \<and>
   [stock_row [(''ticker'', PStr ''A'')], stock_row [(''ticker'', PStr ''A'')]] \<noteq>
     [stock_row [(''ticker'', PStr ''A'')]]"
  by (simp add: StockMetaData_clean_data_eq raw_records_def init_def)

lemma for_each_collect_inv:
  "for_each xs (\<lambda>s x. case g x of Inl e \<Rightarrow> Inl e | Inr t \<Rightarrow> Inr (append_clean s t)) s = Inr s' \<Longrightarrow>
   (\<And>v. v \<in> set (clean_results s) \<Longrightarrow> P v) \<Longrightarrow> (\<And>x t. g x = Inr t \<Longrightarrow> P t) \<Longrightarrow>
   v \<in> set (clean_results s') \<Longrightarrow> P v"
proof (induction xs arbitrary: s)
  case Nil
  then show ?case by simp
next
  case (Cons x xs)
  from Cons.prems(1) obtain r where g: "g x = Inr r"
    by (cases "g x") simp_all
  with Cons.prems(1) have f:
    "for_each xs (\<lambda>s x. case g x of Inl e \<Rightarrow> Inl e | Inr t \<Rightarrow> Inr (append_clean s t))
       (append_clean s r) = Inr s'"
    by simp
  have "\<And>v. v \<in> set (clean_results (append_clean s r)) \<Longrightarrow> P v"
    using Cons.prems(2) Cons.prems(3) [OF g] by (auto simp: append_clean_def)
  from Cons.IH [OF f this Cons.prems(3) Cons.prems(4)] show ?case .
qed

lemma clean_data_record_sizes:
  "clean_results s0 = [] \<Longrightarrow>
   StockMetaData_clean_data s0 = Inr s \<or>
   HistoricalStockPrices_clean_data to_date ticker_id s0 = Inr s \<or>
   OptionsContracts_clean_data ticker_id s0 = Inr s \<Longrightarrow>
   v \<in> set (clean_results s) \<Longrightarrow> length v = 9 \<or> length v = 10"
proof -
  assume e: "clean_results s0 = []"
    and k: "StockMetaData_clean_data s0 = Inr s \<or>
            HistoricalStockPrices_clean_data to_date ticker_id s0 = Inr s \<or>
            OptionsContracts_clean_data ticker_id s0 = Inr s"
    and v: "v \<in> set (clean_results s)"
  from k show ?thesis
  proof (elim disjE)
    assume "StockMetaData_clean_data s0 = Inr s"
    then have "clean_results s = map stock_row (raw_records s0)"
      using e by (auto simp: StockMetaData_clean_data_eq)
    with v show ?thesis by (auto simp: length_stock_row)
  next
    assume a: "HistoricalStockPrices_clean_data to_date ticker_id s0 = Inr s"
    have "length v = 10"
    proof (rule for_each_collect_inv [where P = "\<lambda>v. length v = 10" and s = s0 and s' = s
              and g = "price_row to_date ticker_id" and xs = "raw_records s0"])
      show "for_each (raw_records s0)
              (\<lambda>s x. case price_row to_date ticker_id x of Inl e \<Rightarrow> Inl e
                     | Inr t \<Rightarrow> Inr (append_clean s t)) s0 = Inr s"
        using a
        unfolding HistoricalStockPrices_clean_data_def for_each_nested raw_records_def [symmetric] .
      show "\<And>v. v \<in> set (clean_results s0) \<Longrightarrow> length v = 10" using e by simp
      show "\<And>x t. price_row to_date ticker_id x = Inr t \<Longrightarrow> length t = 10"
        by (rule length_price_row)
      show "v \<in> set (clean_results s)" by (rule v)
    qed
    then show ?thesis by simp
  next
    assume "OptionsContracts_clean_data ticker_id s0 = Inr s"
    with OptionsContracts_clean_data_fresh [OF e, of ticker_id]
    have "clean_results s =
            map snd (foldl (\<lambda>d v. AList.update (natural_key v) v d) []
                       (map (option_row ticker_id) (raw_records s0)))"
      by auto
    with v dedup_consistent have "v \<in> option_row ticker_id ` set (raw_records s0)"
      by fastforce
    then show ?thesis by (auto simp: length_option_row)
  qed
qed

text \<open>
  Claim C5. For every non-empty \<^verbatim>\<open>clean_results\<close> that one of the three \<^verbatim>\<open>clean_data\<close>
  methods has filled from the empty list of \<^verbatim>\<open>__init__\<close>, and more generally for every
  non-empty \<^verbatim>\<open>clean_results\<close> whose first record is one a normalizer builds (or any
  record of at least one and fewer than 120000 fields), the batches that
  \<^verbatim>\<open>make_clean_generator\<close> yields, concatenated in the order they are yielded, are
  \<^verbatim>\<open>clean_results\<close> itself: every record is in exactly one batch, nothing lost, nothing
  twice, nothing moved.
\<close>

theorem make_clean_generator_covers:
  "(clean_results s = r # rest \<and>
    (r = stock_row t \<or> r = option_row ticker_id t \<or> price_row to_date ticker_id t = Inr r \<or>
     (0 < length r \<and> length r < 120000)) \<longrightarrow>
      (\<exists>bs. make_clean_generator s = Inr bs \<and> concat bs = clean_results s)) \<and>
   (clean_results s0 = [] \<and>
    (StockMetaData_clean_data s0 = Inr s \<or>
     HistoricalStockPrices_clean_data to_date ticker_id s0 = Inr s \<or>
     OptionsContracts_clean_data ticker_id s0 = Inr s) \<and>
    clean_results s \<noteq> [] \<longrightarrow>
      (\<exists>bs. make_clean_generator s = Inr bs \<and> concat bs = clean_results s))"
proof -
  have size: "\<And>r rest. clean_results s = r # rest \<Longrightarrow> 0 < length r \<Longrightarrow> length r < 120000 \<Longrightarrow>
      (\<exists>bs. make_clean_generator s = Inr bs \<and> concat bs = clean_results s)"
  proof -
    fix r rest
    assume a: "clean_results s = r # rest" and p: "0 < length r" and u: "length r < 120000"
    have m: "make_clean_generator s =
      Inr (batches (nat (py_round (60000 / of_int (int (length r))))) (clean_results s) 0)"
      using a p u by (rule make_clean_generator_batches)
    have "0 < nat (py_round (60000 / of_int (int (length r))))"
      using batch_size_pos [OF p u] by simp
    then have "concat (batches (nat (py_round (60000 / of_int (int (length r))))) (clean_results s) 0)
                 = clean_results s"
      by (simp add: concat_batches)
    with m show "\<exists>bs. make_clean_generator s = Inr bs \<and> concat bs = clean_results s"
      by blast
  qed
  have first: "clean_results s = r # rest \<and>
    (r = stock_row t \<or> r = option_row ticker_id t \<or> price_row to_date ticker_id t = Inr r \<or>
     (0 < length r \<and> length r < 120000)) \<longrightarrow>
      (\<exists>bs. make_clean_generator s = Inr bs \<and> concat bs = clean_results s)"
  proof
    assume a: "clean_results s = r # rest \<and>
      (r = stock_row t \<or> r = option_row ticker_id t \<or> price_row to_date ticker_id t = Inr r \<or>
       (0 < length r \<and> length r < 120000))"
    then have "0 < length r \<and> length r < 120000"
      using length_stock_row [of t] length_option_row [of ticker_id t]
        length_price_row [of to_date ticker_id t r]
      by auto
    with a size show "\<exists>bs. make_clean_generator s = Inr bs \<and> concat bs = clean_results s"
      by blast
  qed
  have run: "clean_results s0 = [] \<and>
    (StockMetaData_clean_data s0 = Inr s \<or>
     HistoricalStockPrices_clean_data to_date ticker_id s0 = Inr s \<or>
     OptionsContracts_clean_data ticker_id s0 = Inr s) \<and>
    clean_results s \<noteq> [] \<longrightarrow>
      (\<exists>bs. make_clean_generator s = Inr bs \<and> concat bs = clean_results s)"
  proof
    assume a: "clean_results s0 = [] \<and>
      (StockMetaData_clean_data s0 = Inr s \<or>
       HistoricalStockPrices_clean_data to_date ticker_id s0 = Inr s \<or>
       OptionsContracts_clean_data ticker_id s0 = Inr s) \<and>
      clean_results s \<noteq> []"
    then obtain r rest where c: "clean_results s = r # rest"
      by (cases "clean_results s") auto
    then have "r \<in> set (clean_results s)" by simp
    with a clean_data_record_sizes [of s0 s to_date ticker_id r]
    have "length r = 9 \<or> length r = 10" by blast
    then have "0 < length r \<and> length r < 120000" by auto
    with c size show "\<exists>bs. make_clean_generator s = Inr bs \<and> concat bs = clean_results s"
      by blast
  qed
  from first run show ?thesis by (rule conjI)
qed

theorem make_clean_generator_covers_witness:
  "clean_results (init\<lparr>results := [\<lparr>request_id = None, next_url = None,
       page_results = [[(''ticker'', PStr ''A'')], [(''ticker'', PStr ''B'')]]\<rparr>]\<rparr>) = [] \<and>
   StockMetaData_clean_data (init\<lparr>results := [\<lparr>request_id = None, next_url = None,
       page_results = [[(''ticker'', PStr ''A'')], [(''ticker'', PStr ''B'')]]\<rparr>]\<rparr>) =
     Inr (init\<lparr>results := [\<lparr>request_id = None, next_url = None,
            page_results = [[(''ticker'', PStr ''A'')], [(''ticker'', PStr ''B'')]]\<rparr>],
          clean_results := [stock_row [(''ticker'', PStr ''A'')],
                            stock_row [(''ticker'', PStr ''B'')]]\<rparr>) \<and>
   (\<exists>bs. make_clean_generator
           (init\<lparr>results := [\<lparr>request_id = None, next_url = None,
              page_results = [[(''ticker'', PStr ''A'')], [(''ticker'', PStr ''B'')]]\<rparr>],
            clean_results := [stock_row [(''ticker'', PStr ''A'')],
                              stock_row [(''ticker'', PStr ''B'')]]\<rparr>) = Inr bs \<and>
         concat bs = [stock_row [(''ticker'', PStr ''A'')], stock_row [(''ticker'', PStr ''B'')]])"
proof -
  let ?fresh = "init\<lparr>results := [\<lparr>request_id = None, next_url = None,
       page_results = [[(''ticker'', PStr ''A'')], [(''ticker'', PStr ''B'')]]\<rparr>]\<rparr>"
  let ?cleaned = "init\<lparr>results := [\<lparr>request_id = None, next_url = None,
            page_results = [[(''ticker'', PStr ''A'')], [(''ticker'', PStr ''B'')]]\<rparr>],
          clean_results := [stock_row [(''ticker'', PStr ''A'')],
                            stock_row [(''ticker'', PStr ''B'')]]\<rparr>"
  have h1: "clean_results ?fresh = []" by (simp add: init_def)
  have h2: "StockMetaData_clean_data ?fresh = Inr ?cleaned"
    by (simp add: StockMetaData_clean_data_eq raw_records_def init_def)
  have h3: "clean_results ?cleaned \<noteq> []" by simp
  have h4: "clean_results ?cleaned = stock_row [(''ticker'', PStr ''A'')] # [stock_row [(''ticker'', PStr ''B'')]]"
    by simp
  note t = make_clean_generator_covers
      [where s = ?cleaned and s0 = ?fresh and r = "stock_row [(''ticker'', PStr ''A'')]"
         and rest = "[stock_row [(''ticker'', PStr ''B'')]]" and t = "[(''ticker'', PStr ''A'')]"]
  from t h1 h2 h3 have a: "\<exists>bs. make_clean_generator ?cleaned = Inr bs \<and> concat bs = clean_results ?cleaned"
    by blast
  from t h4 have b: "\<exists>bs. make_clean_generator ?cleaned = Inr bs \<and> concat bs = clean_results ?cleaned"
    by blast
  from a b h1 h2 show ?thesis by simp
qed

end
